theory Spec2Isabelle
  imports Complex_Main "HOL-Library.Signed_Division"
begin

section \<open>Go values: errors, time, numbers, formatting\<close>

text \<open>
  An \<open>error\<close> is the text of \<open>err.Error()\<close>; \<open>fmt.Errorf("p: %w", err)\<close> puts
  \<open>p: \<close> in front of it. A Go function returning \<open>(v, error)\<close> is a sum, \<open>Inl\<close> the
  error. A run-time panic (the integer division by zero) is a separate outcome.

  A \<open>time.Time\<close> is the number of nanoseconds since the Unix epoch and a
  \<open>time.Duration\<close> a number of nanoseconds. Go's \<open>int\<close> and \<open>int64\<close> are modelled
  by \<open>int\<close> (request counters and timestamps stay far away from \<open>2^63\<close>).

  A \<open>float64\<close> is the real number it denotes; infinities and NaN are outside the
  model. The sliding window's weighted count is computed with the rounding of every
  \<open>float64\<close> operation (\<open>f64\<close> below), because there the rounding changes decisions
  at everyday inputs: \<open>5 * (1 - 0.8)\<close> is \<open>0.9999999999999998\<close> and truncates to 0.
  The window divisor \<open>int64(windowSize.Seconds())\<close> is the exact number of whole
  seconds, which is the value Go computes for every window from one second up to
  \<open>2^52\<close> ns (lemma \<open>window_seconds_f64\<close>). The bucket limiters use the exact value
  of each expression.

  One invocation of a limiter happens at one instant \<open>now\<close>: every
  \<open>time.Now()\<close> it performs and every store operation it issues see that clock value.
\<close>

type_synonym error = string
type_synonym time = int
type_synonym duration = int

datatype 'a outcome = Panic | Done 'a

definition Second :: duration where
  "Second = 1000000000"

text \<open>\<open>t.Unix()\<close>: whole seconds since the epoch, rounded down.\<close>

definition Unix :: "time \<Rightarrow> int" where
  "Unix t = t div Second"

text \<open>\<open>d.Seconds()\<close>: the duration in seconds, as the exact value.\<close>

definition Seconds :: "duration \<Rightarrow> real" where
  "Seconds d = real_of_int d / 1000000000"

text \<open>\<open>int(x)\<close> and \<open>int64(x)\<close> of a float: the fraction is discarded (truncation
  towards zero).\<close>

definition go_int :: "real \<Rightarrow> int" where
  "go_int x = (if 0 \<le> x then \<lfloor>x\<rfloor> else \<lceil>x\<rceil>)"

text \<open>\<open>t.Sub(u)\<close>: the difference, saturated at the largest and smallest
  \<open>Duration\<close>.\<close>

definition Sub :: "time \<Rightarrow> time \<Rightarrow> duration" where
  "Sub t u = max (- 9223372036854775808) (min 9223372036854775807 (t - u))"

text \<open>
  Rounding to \<open>float64\<close>: the nearest number with a 53-bit significand, ties to the
  even significand (IEEE 754 binary64, round to nearest even; overflow and subnormal
  numbers are not modelled, the magnitudes here are far inside the normal range). The
  magnitude is scaled by powers of two into \<open>[2^52, 2^53)\<close>, in at most 2200 steps,
  which covers every normal \<open>float64\<close>, then rounded to an integer and scaled back.
  Every \<open>float64\<close> operation of Go returns the rounded exact result: \<open>x * y\<close> is
  \<open>f64 (x * y)\<close>, \<open>float64(n)\<close> is \<open>f64 n\<close>.
\<close>

definition round_half_even :: "real \<Rightarrow> int" where
  "round_half_even y =
     (let f = \<lfloor>y\<rfloor>; r = y - real_of_int f
      in if r < 1 / 2 then f else if 1 / 2 < r then f + 1 else if even f then f else f + 1)"

fun f64_norm :: "nat \<Rightarrow> real \<Rightarrow> int \<Rightarrow> real \<times> int" where
  "f64_norm n y e =
     (if n = 0 then (y, e)
      else if y < 4503599627370496 then f64_norm (n - 1) (2 * y) (e - 1)
      else if 9007199254740992 \<le> y then f64_norm (n - 1) (y / 2) (e + 1)
      else (y, e))"

declare f64_norm.simps [simp del]

definition f64 :: "real \<Rightarrow> real" where
  "f64 x =
     (if x = 0 then 0
      else
        (case f64_norm 2200 \<bar>x\<bar> 0 of
           (y, e) \<Rightarrow>
             let m = round_half_even y;
                 v = (if 0 \<le> e then real_of_int m * 2 ^ nat e else real_of_int m / 2 ^ nat (- e))
             in if x < 0 then - v else v))"


text \<open>\<open>d.Seconds()\<close> as Go computes it:
  \<open>sec := d / Second; nsec := d % Second; return float64(sec) + float64(nsec)/1e9\<close>.\<close>

definition Seconds_f64 :: "duration \<Rightarrow> real" where
  "Seconds_f64 d =
     (let sec = d sdiv Second;
          nsec = d smod Second
      in f64 (f64 (real_of_int sec) + f64 (f64 (real_of_int nsec) / 1000000000)))"

text \<open>\<open>strings.Contains\<close>.\<close>

fun has_prefix :: "string \<Rightarrow> string \<Rightarrow> bool" where
  "has_prefix s [] = True"
| "has_prefix [] (c # cs) = False"
| "has_prefix (x # xs) (c # cs) = (x = c \<and> has_prefix xs cs)"

fun Contains :: "string \<Rightarrow> string \<Rightarrow> bool" where
  "Contains [] sub = (sub = [])"
| "Contains (x # xs) sub = (has_prefix (x # xs) sub \<or> Contains xs sub)"

text \<open>Decimal formatting (\<open>%d\<close>, \<open>strconv.Itoa\<close>) and parsing (\<open>strconv.Atoi\<close>: an
  optional sign followed by at least one decimal digit).\<close>

definition digit_char :: "nat \<Rightarrow> char" where
  "digit_char d = char_of (48 + d)"

fun digits :: "nat \<Rightarrow> string" where
  "digits n = (if n < 10 then [digit_char n] else digits (n div 10) @ [digit_char (n mod 10)])"

declare digits.simps [simp del]

definition Itoa :: "int \<Rightarrow> string" where
  "Itoa i = (if i < 0 then CHR ''-'' # digits (nat (- i)) else digits (nat i))"

definition is_digit :: "char \<Rightarrow> bool" where
  "is_digit c = (48 \<le> (of_char c :: nat) \<and> (of_char c :: nat) \<le> 57)"

definition digit_val :: "char \<Rightarrow> nat" where
  "digit_val c = of_char c - 48"

fun parse_digits :: "nat \<Rightarrow> string \<Rightarrow> nat option" where
  "parse_digits acc [] = Some acc"
| "parse_digits acc (c # cs) =
     (if is_digit c then parse_digits (10 * acc + digit_val c) cs else None)"

definition Atoi :: "string \<Rightarrow> int option" where
  "Atoi s =
     (case s of
        [] \<Rightarrow> None
      | c # cs \<Rightarrow>
          if c = CHR ''-'' then
            (if cs = [] then None else map_option (\<lambda>n. - int n) (parse_digits 0 cs))
          else if c = CHR ''+'' then
            (if cs = [] then None else map_option int (parse_digits 0 cs))
          else map_option int (parse_digits 0 s))"

section \<open>The Redis store\<close>

text \<open>
  The Redis server behind \<open>redisrepo.Repository\<close>: string values under string keys,
  each with an optional expiry instant. A key whose expiry instant has been reached is
  gone. Durations are kept at nanosecond resolution.

  A transport failure is decided by a fault oracle: \<open>flt op = Some msg\<close> makes the
  operation \<open>op\<close> of this invocation fail with message \<open>msg\<close> and leave the store as
  it was.
\<close>

record entry =
  val :: string
  expireAt :: "time option"

type_synonym redis = "string \<Rightarrow> entry option"

datatype redis_op = OpSet string | OpGet string | OpExists string | OpExpire string | OpIncr string

type_synonym faults = "redis_op \<Rightarrow> error option"

definition no_faults :: faults where
  "no_faults = (\<lambda>_. None)"

definition live :: "time \<Rightarrow> entry option \<Rightarrow> entry option" where
  "live now e =
     (case e of
        None \<Rightarrow> None
      | Some x \<Rightarrow>
          (case expireAt x of
             None \<Rightarrow> Some x
           | Some d \<Rightarrow> if now < d then Some x else None))"

text \<open>\<open>INCR\<close> accepts only the canonical decimal form of an integer.\<close>

definition redis_integer :: "string \<Rightarrow> int option" where
  "redis_integer s =
     (case Atoi s of
        None \<Rightarrow> None
      | Some n \<Rightarrow> if Itoa n = s then Some n else None)"

text \<open>\<open>Set\<close>: \<open>SET key value\<close>, with \<open>PX\<close>/\<open>EX\<close> for a positive expiration and
  \<open>KEEPTTL\<close> for \<open>redis.KeepTTL = -1\<close>; otherwise the key does not expire.\<close>

definition set_entry :: "time \<Rightarrow> entry option \<Rightarrow> string \<Rightarrow> duration \<Rightarrow> entry" where
  "set_entry now old v expiration =
     \<lparr>val = v,
      expireAt =
        (if 0 < expiration then Some (now + expiration)
         else if expiration = - 1 then
           (case live now old of None \<Rightarrow> None | Some x \<Rightarrow> expireAt x)
         else None)\<rparr>"

definition redis_Set ::
  "faults \<Rightarrow> time \<Rightarrow> redis \<Rightarrow> string \<Rightarrow> string \<Rightarrow> duration \<Rightarrow> error option \<times> redis" where
  "redis_Set flt now kv key v expiration =
     (case flt (OpSet key) of
        Some e \<Rightarrow> (Some e, kv)
      | None \<Rightarrow> (None, kv(key := Some (set_entry now (kv key) v expiration))))"

text \<open>\<open>Get\<close>: \<open>redis.Nil\<close> becomes the error \<open>key <key> not found\<close>.\<close>

definition redis_Get :: "faults \<Rightarrow> time \<Rightarrow> redis \<Rightarrow> string \<Rightarrow> error + string" where
  "redis_Get flt now kv key =
     (case flt (OpGet key) of
        Some e \<Rightarrow> Inl e
      | None \<Rightarrow>
          (case live now (kv key) of
             None \<Rightarrow> Inl (''key '' @ key @ '' not found'')
           | Some x \<Rightarrow> Inr (val x)))"

definition redis_Exists :: "faults \<Rightarrow> time \<Rightarrow> redis \<Rightarrow> string \<Rightarrow> error + bool" where
  "redis_Exists flt now kv key =
     (case flt (OpExists key) of
        Some e \<Rightarrow> Inl e
      | None \<Rightarrow> Inr (live now (kv key) \<noteq> None))"

text \<open>\<open>Expire\<close>: a missing key is left alone; a timeout that is not positive deletes
  the key.\<close>

definition expire_entry :: "time \<Rightarrow> entry option \<Rightarrow> duration \<Rightarrow> entry option" where
  "expire_entry now old expiration =
     (case live now old of
        None \<Rightarrow> old
      | Some x \<Rightarrow> if 0 < expiration then Some (x\<lparr>expireAt := Some (now + expiration)\<rparr>) else None)"

definition redis_Expire ::
  "faults \<Rightarrow> time \<Rightarrow> redis \<Rightarrow> string \<Rightarrow> duration \<Rightarrow> error option \<times> redis" where
  "redis_Expire flt now kv key expiration =
     (case flt (OpExpire key) of
        Some e \<Rightarrow> (Some e, kv)
      | None \<Rightarrow> (None, kv(key := expire_entry now (kv key) expiration)))"

text \<open>\<open>Increment\<close>: \<open>INCR\<close> creates a missing key at 1 without expiry, keeps the expiry
  of an existing key, and refuses a value that is not an integer.\<close>

definition redis_Increment :: "faults \<Rightarrow> time \<Rightarrow> redis \<Rightarrow> string \<Rightarrow> (error + int) \<times> redis" where
  "redis_Increment flt now kv key =
     (case flt (OpIncr key) of
        Some e \<Rightarrow> (Inl e, kv)
      | None \<Rightarrow>
          (case live now (kv key) of
             None \<Rightarrow> (Inr 1, kv(key := Some \<lparr>val = Itoa 1, expireAt = None\<rparr>))
           | Some x \<Rightarrow>
               (case redis_integer (val x) of
                  None \<Rightarrow> (Inl ''ERR value is not an integer or out of range'', kv)
                | Some n \<Rightarrow> (Inr (n + 1), kv(key := Some (x\<lparr>val := Itoa (n + 1)\<rparr>))))))"

section \<open>The rate-limit repository\<close>

definition IncrementPreserveTTL ::
  "faults \<Rightarrow> time \<Rightarrow> redis \<Rightarrow> string \<Rightarrow> duration \<Rightarrow> (error + int) \<times> redis" where
  "IncrementPreserveTTL flt now kv key defaultExpiration =
     (case redis_Increment flt now kv key of
        (Inl e, kv1) \<Rightarrow> (Inl (''failed to increment counter: '' @ e), kv1)
      | (Inr v, kv1) \<Rightarrow>
          if v = 1 \<and> 0 < defaultExpiration then
            (if 0 < defaultExpiration then
               (case redis_Expire flt now kv1 key defaultExpiration of
                  (Some e, kv2) \<Rightarrow> (Inl (''failed to set expiration: '' @ e), kv2)
                | (None, kv2) \<Rightarrow> (Inr v, kv2))
             else (Inr v, kv1))
          else (Inr v, kv1))"

definition Check :: "faults \<Rightarrow> time \<Rightarrow> redis \<Rightarrow> string \<Rightarrow> error + int" where
  "Check flt now kv key =
     (case redis_Exists flt now kv key of
        Inl e \<Rightarrow> Inl (''failed to check if key exists: '' @ e)
      | Inr exists \<Rightarrow>
          if \<not> exists then Inr 0
          else
            (case redis_Get flt now kv key of
               Inl e \<Rightarrow> Inl (''failed to get rate limit counter: '' @ e)
             | Inr countStr \<Rightarrow>
                 (case Atoi countStr of
                    None \<Rightarrow>
                      Inl (''invalid rate limit counter value: strconv.Atoi: parsing ''
                           @ [CHR 0x22] @ countStr @ [CHR 0x22] @ '': invalid syntax'')
                  | Some count \<Rightarrow> Inr count)))"

definition SetState ::
  "faults \<Rightarrow> time \<Rightarrow> redis \<Rightarrow> string \<Rightarrow> string \<Rightarrow> duration \<Rightarrow> error option \<times> redis" where
  "SetState flt now kv key state expiration =
     (case redis_Set flt now kv key state expiration of
        (Some e, kv1) \<Rightarrow> (Some (''failed to set state: '' @ e), kv1)
      | (None, kv1) \<Rightarrow> (None, kv1))"

definition GetState :: "faults \<Rightarrow> time \<Rightarrow> redis \<Rightarrow> string \<Rightarrow> error + string" where
  "GetState flt now kv key =
     (case redis_Get flt now kv key of
        Inl e \<Rightarrow> Inl (''failed to get state: '' @ e)
      | Inr v \<Rightarrow> Inr v)"

record RateLimitResponse =
  Limit :: int
  Remaining :: int
  Reset :: int

section \<open>Fixed window\<close>

record FixedWindowStore =
  fw_limit :: int
  fw_windowSize :: duration
  fw_keyPrefix :: string

definition NewFixedWindowStore :: "int \<Rightarrow> duration \<Rightarrow> FixedWindowStore" where
  "NewFixedWindowStore limit windowSize =
     \<lparr>fw_limit = limit, fw_windowSize = windowSize, fw_keyPrefix = ''rate_limit_fixed_window''\<rparr>"

text \<open>\<open>fmt.Sprintf("%s:%s:%d", keyPrefix, identifier, windowNum)\<close>.\<close>

definition window_key :: "string \<Rightarrow> string \<Rightarrow> int \<Rightarrow> string" where
  "window_key keyPrefix identifier windowNum =
     keyPrefix @ '':'' @ identifier @ '':'' @ Itoa windowNum"

text \<open>\<open>int64(s.windowSize.Seconds())\<close>, the divisor of the window index.\<close>

definition window_seconds :: "duration \<Rightarrow> int" where
  "window_seconds windowSize = go_int (Seconds windowSize)"

definition FixedWindow_Allow ::
  "FixedWindowStore \<Rightarrow> string \<Rightarrow> time \<Rightarrow> faults \<Rightarrow> redis \<Rightarrow> (error + bool) outcome \<times> redis" where
  "FixedWindow_Allow s identifier now flt kv =
     (if window_seconds (fw_windowSize s) = 0 then (Panic, kv)
      else
        let windowNum = Unix now sdiv window_seconds (fw_windowSize s);
            key = window_key (fw_keyPrefix s) identifier windowNum
        in (case IncrementPreserveTTL flt now kv key (fw_windowSize s) of
              (Inl e, kv1) \<Rightarrow> (Done (Inl (''failed to increment rate limit counter: '' @ e)), kv1)
            | (Inr count, kv1) \<Rightarrow> (Done (Inr (count \<le> fw_limit s)), kv1)))"

definition FixedWindow_GetRateLimitInfo ::
  "FixedWindowStore \<Rightarrow> string \<Rightarrow> time \<Rightarrow> faults \<Rightarrow> redis \<Rightarrow> (error + RateLimitResponse) outcome" where
  "FixedWindow_GetRateLimitInfo s identifier now flt kv =
     (if window_seconds (fw_windowSize s) = 0 then Panic
      else
        let windowNum = Unix now sdiv window_seconds (fw_windowSize s);
            key = window_key (fw_keyPrefix s) identifier windowNum
        in (case Check flt now kv key of
              Inl e \<Rightarrow> Done (Inl e)
            | Inr count \<Rightarrow>
                let nextWindow = (windowNum + 1) * window_seconds (fw_windowSize s);
                    remaining = fw_limit s - count
                in Done (Inr \<lparr>Limit = fw_limit s,
                              Remaining = (if remaining < 0 then 0 else remaining),
                              Reset = nextWindow\<rparr>)))"

section \<open>Sliding window\<close>

record SlidingWindowStore =
  sw_limit :: int
  sw_windowSize :: duration
  sw_keyPrefix :: string

definition NewSlidingWindowStore :: "int \<Rightarrow> duration \<Rightarrow> SlidingWindowStore" where
  "NewSlidingWindowStore limit windowSize =
     \<lparr>sw_limit = limit, sw_windowSize = windowSize, sw_keyPrefix = ''rate_limit_sliding_window''\<rparr>"

text \<open>\<open>float64(now.Unix() % int64(windowSize.Seconds())) / float64(windowSize.Seconds())\<close>,
  in \<open>float64\<close>.\<close>

definition window_offset :: "duration \<Rightarrow> time \<Rightarrow> real" where
  "window_offset windowSize now =
     f64 (f64 (real_of_int (Unix now smod window_seconds windowSize)) / Seconds_f64 windowSize)"

text \<open>\<open>int(float64(previousCount)*previousWeight) + currentCount\<close> with
  \<open>previousWeight := 1 - offset\<close>, in \<open>float64\<close>.\<close>

definition weighted_count :: "duration \<Rightarrow> time \<Rightarrow> int \<Rightarrow> int \<Rightarrow> int" where
  "weighted_count windowSize now previousCount currentCount =
     (let offset = window_offset windowSize now;
          previousWeight = f64 (1 - offset)
      in go_int (f64 (f64 (real_of_int previousCount) * previousWeight)) + currentCount)"

definition SlidingWindow_Allow ::
  "SlidingWindowStore \<Rightarrow> string \<Rightarrow> time \<Rightarrow> faults \<Rightarrow> redis \<Rightarrow> (error + bool) outcome \<times> redis" where
  "SlidingWindow_Allow s identifier now flt kv =
     (if window_seconds (sw_windowSize s) = 0 then (Panic, kv)
      else
        let currentWindow = Unix now sdiv window_seconds (sw_windowSize s);
            previousWindow = currentWindow - 1;
            currentKey = window_key (sw_keyPrefix s) identifier currentWindow;
            previousKey = window_key (sw_keyPrefix s) identifier previousWindow
        in (case Check flt now kv currentKey of
              Inl e \<Rightarrow> (Done (Inl e), kv)
            | Inr currentCount \<Rightarrow>
                (case Check flt now kv previousKey of
                   Inl e \<Rightarrow> (Done (Inl e), kv)
                 | Inr previousCount \<Rightarrow>
                     let weightedCount =
                           weighted_count (sw_windowSize s) now previousCount currentCount
                     in if sw_limit s \<le> weightedCount then (Done (Inr False), kv)
                        else
                          (case IncrementPreserveTTL flt now kv currentKey (sw_windowSize s * 2) of
                             (Inl e, kv1) \<Rightarrow> (Done (Inl e), kv1)
                           | (Inr _, kv1) \<Rightarrow> (Done (Inr True), kv1)))))"

definition SlidingWindow_GetRateLimitInfo ::
  "SlidingWindowStore \<Rightarrow> string \<Rightarrow> time \<Rightarrow> faults \<Rightarrow> redis \<Rightarrow> (error + RateLimitResponse) outcome" where
  "SlidingWindow_GetRateLimitInfo s identifier now flt kv =
     (if window_seconds (sw_windowSize s) = 0 then Panic
      else
        let currentWindow = Unix now sdiv window_seconds (sw_windowSize s);
            previousWindow = currentWindow - 1;
            currentKey = window_key (sw_keyPrefix s) identifier currentWindow;
            previousKey = window_key (sw_keyPrefix s) identifier previousWindow
        in (case Check flt now kv currentKey of
              Inl e \<Rightarrow> Done (Inl e)
            | Inr currentCount \<Rightarrow>
                (case Check flt now kv previousKey of
                   Inl e \<Rightarrow> Done (Inl e)
                 | Inr previousCount \<Rightarrow>
                     let weightedCount =
                           weighted_count (sw_windowSize s) now previousCount currentCount;
                         remaining = sw_limit s - weightedCount;
                         nextReset = (currentWindow + 1) * window_seconds (sw_windowSize s)
                     in Done (Inr \<lparr>Limit = sw_limit s,
                                   Remaining = (if remaining < 0 then 0 else remaining),
                                   Reset = nextReset\<rparr>))))"

section \<open>Bucket state and its JSON encoding\<close>

text \<open>
  \<open>encoding/json\<close> is a parameter of the bucket limiters: \<open>Marshal\<close> and \<open>Unmarshal\<close> of
  the state type, each of which may fail.
\<close>

record 'a json =
  Marshal :: "'a \<Rightarrow> error + string"
  Unmarshal :: "string \<Rightarrow> error + 'a"

text \<open>\<open>fmt.Sprintf("%s:%s", keyPrefix, identifier)\<close>.\<close>

definition bucket_key :: "string \<Rightarrow> string \<Rightarrow> string" where
  "bucket_key keyPrefix identifier = keyPrefix @ '':'' @ identifier"

section \<open>Token bucket\<close>

record tokenBucketState =
  Tokens :: real
  LastRefill :: time

record TokenBucketStore =
  tb_rate :: real
  tb_burst :: int
  tb_expiresIn :: duration
  tb_keyPrefix :: string

definition NewTokenBucketStore :: "real \<Rightarrow> int \<Rightarrow> duration \<Rightarrow> TokenBucketStore" where
  "NewTokenBucketStore rate burst expiresIn =
     \<lparr>tb_rate = rate, tb_burst = burst, tb_expiresIn = expiresIn,
      tb_keyPrefix = ''rate_limit_token_bucket''\<rparr>"

definition tb_getBucketState ::
  "tokenBucketState json \<Rightarrow> TokenBucketStore \<Rightarrow> time \<Rightarrow> faults \<Rightarrow> redis \<Rightarrow> string
     \<Rightarrow> error + tokenBucketState" where
  "tb_getBucketState js s now flt kv key =
     (case GetState flt now kv key of
        Inl e \<Rightarrow>
          if Contains e ''not found''
          then Inr \<lparr>Tokens = real_of_int (tb_burst s), LastRefill = now\<rparr>
          else Inl e
      | Inr stateJSON \<Rightarrow>
          (case Unmarshal js stateJSON of
             Inl e \<Rightarrow> Inl (''failed to unmarshal token bucket state: '' @ e)
           | Inr state \<Rightarrow> Inr state))"

definition tb_saveBucketState ::
  "tokenBucketState json \<Rightarrow> TokenBucketStore \<Rightarrow> time \<Rightarrow> faults \<Rightarrow> redis \<Rightarrow> string
     \<Rightarrow> tokenBucketState \<Rightarrow> error option \<times> redis" where
  "tb_saveBucketState js s now flt kv key state =
     (case Marshal js state of
        Inl e \<Rightarrow> (Some (''failed to marshal token bucket state: '' @ e), kv)
      | Inr stateJSON \<Rightarrow> SetState flt now kv key stateJSON (tb_expiresIn s))"

text \<open>The refilled level: \<open>tokens + elapsed * rate\<close>, capped at the burst size.\<close>

definition refill :: "TokenBucketStore \<Rightarrow> time \<Rightarrow> tokenBucketState \<Rightarrow> real" where
  "refill s now state =
     (let elapsed = Seconds (Sub now (LastRefill state));
          newTokens = Tokens state + elapsed * tb_rate s
      in if real_of_int (tb_burst s) < newTokens then real_of_int (tb_burst s) else newTokens)"

definition TokenBucket_Allow ::
  "tokenBucketState json \<Rightarrow> TokenBucketStore \<Rightarrow> string \<Rightarrow> time \<Rightarrow> faults \<Rightarrow> redis
     \<Rightarrow> (error + bool) outcome \<times> redis" where
  "TokenBucket_Allow js s identifier now flt kv =
     (let key = bucket_key (tb_keyPrefix s) identifier
      in (case tb_getBucketState js s now flt kv key of
            Inl e \<Rightarrow> (Done (Inl (''failed to get bucket state: '' @ e)), kv)
          | Inr state \<Rightarrow>
              let newTokens = refill s now state
              in if newTokens < 1 then (Done (Inr False), kv)
                 else
                   (case tb_saveBucketState js s now flt kv key
                           (state\<lparr>Tokens := newTokens - 1, LastRefill := now\<rparr>) of
                      (Some e, kv1) \<Rightarrow> (Done (Inl (''failed to save bucket state: '' @ e)), kv1)
                    | (None, kv1) \<Rightarrow> (Done (Inr True), kv1))))"

text \<open>With \<open>rate = 0\<close> the quotient \<open>tokensNeeded / rate\<close> is not finite in Go and the
  reset time it yields depends on the platform; here the quotient is then 0.\<close>

definition TokenBucket_GetRateLimitInfo ::
  "tokenBucketState json \<Rightarrow> TokenBucketStore \<Rightarrow> string \<Rightarrow> time \<Rightarrow> faults \<Rightarrow> redis
     \<Rightarrow> (error + RateLimitResponse) outcome" where
  "TokenBucket_GetRateLimitInfo js s identifier now flt kv =
     (let key = bucket_key (tb_keyPrefix s) identifier
      in (case tb_getBucketState js s now flt kv key of
            Inl e \<Rightarrow> Done (Inl e)
          | Inr state \<Rightarrow>
              let currentTokens = refill s now state;
                  tokensNeeded = real_of_int (tb_burst s) - currentTokens;
                  timeToFull = go_int (tokensNeeded / tb_rate s) * Second
              in Done (Inr \<lparr>Limit = tb_burst s,
                            Remaining = go_int currentTokens,
                            Reset = Unix (now + timeToFull)\<rparr>)))"

section \<open>Leaky bucket\<close>

record leakyBucketState =
  Water :: int
  LastLeak :: time

record LeakyBucketStore =
  lb_capacity :: int
  lb_leakRate :: real
  lb_expiresIn :: duration
  lb_keyPrefix :: string

definition NewLeakyBucketStore :: "int \<Rightarrow> real \<Rightarrow> duration \<Rightarrow> LeakyBucketStore" where
  "NewLeakyBucketStore capacity leakRate expiresIn =
     \<lparr>lb_capacity = capacity, lb_leakRate = leakRate, lb_expiresIn = expiresIn,
      lb_keyPrefix = ''rate_limit_leaky_bucket''\<rparr>"

definition lb_getBucketState ::
  "leakyBucketState json \<Rightarrow> LeakyBucketStore \<Rightarrow> time \<Rightarrow> faults \<Rightarrow> redis \<Rightarrow> string
     \<Rightarrow> error + leakyBucketState" where
  "lb_getBucketState js s now flt kv key =
     (case GetState flt now kv key of
        Inl e \<Rightarrow>
          if Contains e ''not found''
          then Inr \<lparr>Water = 0, LastLeak = now\<rparr>
          else Inl e
      | Inr stateJSON \<Rightarrow>
          (case Unmarshal js stateJSON of
             Inl e \<Rightarrow> Inl (''failed to unmarshal leaky bucket state: '' @ e)
           | Inr state \<Rightarrow> Inr state))"

definition lb_saveBucketState ::
  "leakyBucketState json \<Rightarrow> LeakyBucketStore \<Rightarrow> time \<Rightarrow> faults \<Rightarrow> redis \<Rightarrow> string
     \<Rightarrow> leakyBucketState \<Rightarrow> error option \<times> redis" where
  "lb_saveBucketState js s now flt kv key state =
     (case Marshal js state of
        Inl e \<Rightarrow> (Some (''failed to marshal leaky bucket state: '' @ e), kv)
      | Inr stateJSON \<Rightarrow> SetState flt now kv key stateJSON (lb_expiresIn s))"

text \<open>The decayed level: \<open>max(0, water - int(elapsed * leakRate))\<close>.\<close>

definition leak :: "LeakyBucketStore \<Rightarrow> time \<Rightarrow> leakyBucketState \<Rightarrow> int" where
  "leak s now state =
     (let elapsed = Seconds (Sub now (LastLeak state));
          leaked = go_int (elapsed * lb_leakRate s)
      in max 0 (Water state - leaked))"

definition LeakyBucket_Allow ::
  "leakyBucketState json \<Rightarrow> LeakyBucketStore \<Rightarrow> string \<Rightarrow> time \<Rightarrow> faults \<Rightarrow> redis
     \<Rightarrow> (error + bool) outcome \<times> redis" where
  "LeakyBucket_Allow js s identifier now flt kv =
     (let key = bucket_key (lb_keyPrefix s) identifier
      in (case lb_getBucketState js s now flt kv key of
            Inl e \<Rightarrow> (Done (Inl e), kv)
          | Inr state0 \<Rightarrow>
              let state = state0\<lparr>Water := leak s now state0\<rparr>
              in if lb_capacity s \<le> Water state then
                   (case lb_saveBucketState js s now flt kv key state of
                      (Some e, kv1) \<Rightarrow> (Done (Inl e), kv1)
                    | (None, kv1) \<Rightarrow> (Done (Inr False), kv1))
                 else
                   (case lb_saveBucketState js s now flt kv key
                           (state\<lparr>Water := Water state + 1, LastLeak := now\<rparr>) of
                      (Some e, kv1) \<Rightarrow> (Done (Inl e), kv1)
                    | (None, kv1) \<Rightarrow> (Done (Inr True), kv1))))"

text \<open>With \<open>leakRate = 0\<close> the quotient \<open>currentWater / leakRate\<close> is not finite in Go
  and the reset time it yields depends on the platform; here the quotient is then 0.\<close>

definition LeakyBucket_GetRateLimitInfo ::
  "leakyBucketState json \<Rightarrow> LeakyBucketStore \<Rightarrow> string \<Rightarrow> time \<Rightarrow> faults \<Rightarrow> redis
     \<Rightarrow> (error + RateLimitResponse) outcome" where
  "LeakyBucket_GetRateLimitInfo js s identifier now flt kv =
     (let key = bucket_key (lb_keyPrefix s) identifier
      in (case lb_getBucketState js s now flt kv key of
            Inl e \<Rightarrow> Done (Inl e)
          | Inr state \<Rightarrow>
              let currentWater = leak s now state;
                  remaining = lb_capacity s - currentWater;
                  reset = (if 0 < currentWater
                           then Unix now + go_int (real_of_int currentWater / lb_leakRate s)
                           else Unix now)
              in Done (Inr \<lparr>Limit = lb_capacity s,
                            Remaining = (if remaining < 0 then 0 else remaining),
                            Reset = reset\<rparr>)))"

section \<open>The limiter interface, the identifier extractors and the handlers\<close>

text \<open>The four implementations of \<open>RateLimiterStore\<close>.\<close>

datatype limiter =
    FixedWindow FixedWindowStore
  | SlidingWindow SlidingWindowStore
  | TokenBucket "tokenBucketState json" TokenBucketStore
  | LeakyBucket "leakyBucketState json" LeakyBucketStore

fun Allow ::
  "limiter \<Rightarrow> string \<Rightarrow> time \<Rightarrow> faults \<Rightarrow> redis \<Rightarrow> (error + bool) outcome \<times> redis" where
  "Allow (FixedWindow s) = FixedWindow_Allow s"
| "Allow (SlidingWindow s) = SlidingWindow_Allow s"
| "Allow (TokenBucket js s) = TokenBucket_Allow js s"
| "Allow (LeakyBucket js s) = LeakyBucket_Allow js s"

fun GetRateLimitInfo ::
  "limiter \<Rightarrow> string \<Rightarrow> time \<Rightarrow> faults \<Rightarrow> redis \<Rightarrow> (error + RateLimitResponse) outcome" where
  "GetRateLimitInfo (FixedWindow s) = FixedWindow_GetRateLimitInfo s"
| "GetRateLimitInfo (SlidingWindow s) = SlidingWindow_GetRateLimitInfo s"
| "GetRateLimitInfo (TokenBucket js s) = TokenBucket_GetRateLimitInfo js s"
| "GetRateLimitInfo (LeakyBucket js s) = LeakyBucket_GetRateLimitInfo js s"

text \<open>The store keys a limiter builds for an identifier: one per window number for
  the window limiters, a single one (whatever the number) for the bucket limiters.\<close>

fun store_key :: "limiter \<Rightarrow> string \<Rightarrow> int \<Rightarrow> string" where
  "store_key (FixedWindow s) identifier n = window_key (fw_keyPrefix s) identifier n"
| "store_key (SlidingWindow s) identifier n = window_key (sw_keyPrefix s) identifier n"
| "store_key (TokenBucket js s) identifier n = bucket_key (tb_keyPrefix s) identifier"
| "store_key (LeakyBucket js s) identifier n = bucket_key (lb_keyPrefix s) identifier"

text \<open>What the extractors read from a request: the \<open>X-API-Key\<close> header (empty when
  the header is missing), \<open>c.RealIP()\<close> and the URL path.\<close>

record request =
  X_API_Key :: string
  RealIP :: string
  Path :: string

definition IdentifierExtractor :: "request \<Rightarrow> error + string" where
  "IdentifierExtractor c =
     (let apiKey = X_API_Key c
      in if apiKey \<noteq> [] then Inr (''api:'' @ apiKey)
         else Inr (''ip:'' @ RealIP c))"

definition IdentifierExtractorPerPath :: "request \<Rightarrow> error + string" where
  "IdentifierExtractorPerPath c =
     (let path = Path c;
          apiKey = X_API_Key c
      in if apiKey \<noteq> [] then Inr (''api:'' @ apiKey @ '':'' @ path)
         else Inr (''ip:'' @ RealIP c @ '':'' @ path))"

text \<open>A response: the request goes on to the next handler, or a JSON reply with a
  status, an error text and the rate-limit headers when they are set.\<close>

datatype response = Next | Reply int string "RateLimitResponse option"

definition ErrorHandler :: "error \<Rightarrow> response" where
  "ErrorHandler err = Reply 500 ''Internal rate limit error'' None"

definition DenyHandler ::
  "limiter \<Rightarrow> string \<Rightarrow> error option \<Rightarrow> time \<Rightarrow> faults \<Rightarrow> redis \<Rightarrow> response outcome" where
  "DenyHandler store identifier err now flt kv =
     (case err of
        Some e \<Rightarrow> Done (Reply 500 ''Internal rate limit error'' None)
      | None \<Rightarrow>
          (case GetRateLimitInfo store identifier now flt kv of
             Panic \<Rightarrow> Panic
           | Done (Inl e) \<Rightarrow> Done (Reply 500 ''Failed to get rate limit info'' None)
           | Done (Inr info) \<Rightarrow> Done (Reply 429 ''Rate limit exceeded'' (Some info))))"

section \<open>Request sequences\<close>


section \<open>A sample encoding of bucket states\<close>

text \<open>
  The concrete examples below need one instance of the encoding parameter. This one
  writes the two fields in decimal with a semicolon between them, the token level in
  millionths of a token, and rejects every other text.
\<close>

definition split_fields :: "string \<Rightarrow> (string \<times> string) option" where
  "split_fields s =
     (if CHR '';'' \<in> set s
      then Some (takeWhile (\<lambda>c. c \<noteq> CHR '';'') s, tl (dropWhile (\<lambda>c. c \<noteq> CHR '';'') s))
      else None)"

definition sample_leaky_json :: "leakyBucketState json" where
  "sample_leaky_json =
     \<lparr>Marshal = (\<lambda>st. Inr (Itoa (Water st) @ '';'' @ Itoa (LastLeak st))),
      Unmarshal = (\<lambda>s.
        case split_fields s of
          None \<Rightarrow> Inl ''invalid character''
        | Some (a, b) \<Rightarrow>
            (case Atoi a of
               None \<Rightarrow> Inl ''invalid character''
             | Some w \<Rightarrow>
                 (case Atoi b of
                    None \<Rightarrow> Inl ''invalid character''
                  | Some t \<Rightarrow> Inr \<lparr>Water = w, LastLeak = t\<rparr>)))\<rparr>"

definition sample_token_json :: "tokenBucketState json" where
  "sample_token_json =
     \<lparr>Marshal = (\<lambda>st. Inr (Itoa (go_int (Tokens st * 1000000)) @ '';'' @ Itoa (LastRefill st))),
      Unmarshal = (\<lambda>s.
        case split_fields s of
          None \<Rightarrow> Inl ''invalid character''
        | Some (a, b) \<Rightarrow>
            (case Atoi a of
               None \<Rightarrow> Inl ''invalid character''
             | Some n \<Rightarrow>
                 (case Atoi b of
                    None \<Rightarrow> Inl ''invalid character''
                  | Some t \<Rightarrow> Inr \<lparr>Tokens = real_of_int n / 1000000, LastRefill = t\<rparr>)))\<rparr>"

section \<open>Facts about formatting and keys\<close>

lemma of_char_digit_char: "d < 10 \<Longrightarrow> (of_char (digit_char d) :: nat) = 48 + d"
  by (simp add: digit_char_def)

lemma is_digit_digit_char: "d < 10 \<Longrightarrow> is_digit (digit_char d)"
  by (simp add: is_digit_def of_char_digit_char)

lemma digit_val_digit_char: "d < 10 \<Longrightarrow> digit_val (digit_char d) = d"
  by (simp add: digit_val_def of_char_digit_char)

lemma is_digit_not_punct:
  "is_digit c \<Longrightarrow> c \<noteq> CHR '':'' \<and> c \<noteq> CHR ''-'' \<and> c \<noteq> CHR ''+''"
  by (auto simp: is_digit_def)

lemma digits_all_digit: "\<forall>c \<in> set (digits n). is_digit c"
proof (induction n rule: digits.induct)
  case (1 n)
  show ?case
  proof (cases "n < 10")
    case True
    then show ?thesis by (subst digits.simps) (simp add: is_digit_digit_char)
  next
    case False
    with 1 show ?thesis by (subst digits.simps) (simp add: is_digit_digit_char)
  qed
qed

lemma digits_not_Nil: "digits n \<noteq> []"
  by (subst digits.simps) simp

lemma parse_digits_snoc:
  "parse_digits acc (xs @ [c]) =
     (case parse_digits acc xs of
        None \<Rightarrow> None
      | Some n \<Rightarrow> if is_digit c then Some (10 * n + digit_val c) else None)"
  by (induction xs arbitrary: acc) auto

lemma parse_digits_digits: "parse_digits 0 (digits n) = Some n"
proof (induction n rule: digits.induct)
  case (1 n)
  show ?case
  proof (cases "n < 10")
    case True
    then show ?thesis
      by (subst digits.simps) (simp add: is_digit_digit_char digit_val_digit_char)
  next
    case False
    with 1 show ?thesis
      by (subst digits.simps)
         (simp add: parse_digits_snoc is_digit_digit_char digit_val_digit_char)
  qed
qed

lemma Atoi_Itoa: "Atoi (Itoa i) = Some i"
proof (cases "i < 0")
  case True
  then show ?thesis
    by (simp add: Atoi_def Itoa_def digits_not_Nil parse_digits_digits)
next
  case False
  obtain c cs where d: "digits (nat i) = c # cs"
    using digits_not_Nil [of "nat i"] by (cases "digits (nat i)") auto
  have "is_digit c" using digits_all_digit [of "nat i"] d by simp
  then have "c \<noteq> CHR ''-''" "c \<noteq> CHR ''+''" using is_digit_not_punct by auto
  moreover have "parse_digits 0 (c # cs) = Some (nat i)"
    using parse_digits_digits [of "nat i"] d by simp
  ultimately show ?thesis using False d
    by (simp add: Atoi_def Itoa_def del: parse_digits.simps)
qed

lemma Itoa_inject: "Itoa a = Itoa b \<longleftrightarrow> a = b"
  by (metis Atoi_Itoa option.inject)


lemma colon_notin_Itoa: "CHR '':'' \<notin> set (Itoa i)"
  using digits_all_digit is_digit_not_punct by (auto simp: Itoa_def)

lemma append_colon_inject:
  "a @ c # x = b @ c # y \<Longrightarrow> c \<notin> set x \<Longrightarrow> c \<notin> set y \<Longrightarrow> a = b \<and> x = y"
proof (induction a arbitrary: b)
  case Nil
  then show ?case by (cases b) auto
next
  case (Cons a0 as)
  show ?case
  proof (cases b)
    case Nil
    with Cons.prems show ?thesis by auto
  next
    case (Cons b0 bs)
    with Cons.prems Cons.IH [of bs] show ?thesis by simp
  qed
qed

lemma window_key_inject:
  "window_key p a m = window_key p b n \<longleftrightarrow> a = b \<and> m = n"
proof
  assume "window_key p a m = window_key p b n"
  then have "a @ CHR '':'' # Itoa m = b @ CHR '':'' # Itoa n"
    by (simp add: window_key_def)
  then have "a = b \<and> Itoa m = Itoa n"
    by (rule append_colon_inject) (rule colon_notin_Itoa)+
  then show "a = b \<and> m = n" by (simp add: Itoa_inject)
next
  assume "a = b \<and> m = n"
  then show "window_key p a m = window_key p b n" by simp
qed

lemma bucket_key_inject: "bucket_key p a = bucket_key p b \<longleftrightarrow> a = b"
  by (simp add: bucket_key_def)

lemma has_prefix_append: "has_prefix (sub @ b) sub"
  by (induction sub) auto

lemma has_prefix_Contains: "has_prefix s sub \<Longrightarrow> Contains s sub"
  by (cases s; cases sub) auto

lemma Contains_append: "Contains (a @ sub @ b) sub"
proof (induction a)
  case Nil
  show ?case using has_prefix_Contains [OF has_prefix_append [of sub b]] by simp
next
  case (Cons x a)
  then show ?case by simp
qed

lemma digit_char_eqI: "d < 10 \<Longrightarrow> (of_char c :: nat) = 48 + d \<Longrightarrow> digit_char d = c"
  using of_char_eq_iff [of "digit_char d" c, where ?'a = nat]
  by (simp add: digit_char_def)

lemma digit_char_eval:
  "digit_char 0 = CHR ''0''" "digit_char 1 = CHR ''1''" "digit_char 2 = CHR ''2''"
  "digit_char 3 = CHR ''3''" "digit_char 4 = CHR ''4''" "digit_char 5 = CHR ''5''"
  "digit_char 6 = CHR ''6''" "digit_char 7 = CHR ''7''" "digit_char 8 = CHR ''8''"
  "digit_char 9 = CHR ''9''" "digit_char (Suc 0) = CHR ''1''"
  by (rule digit_char_eqI; simp)+


section \<open>Arithmetic of the window divisor\<close>

lemma floor_billion: "\<lfloor>real_of_int W / 1000000000\<rfloor> = W div 1000000000"
proof -
  have "real_of_int W / 1000000000 = real_of_int W / real_of_int 1000000000" by simp
  then show ?thesis by (simp only: floor_divide_of_int_eq)
qed


lemma window_seconds_pos: "Second \<le> W \<Longrightarrow> 0 < window_seconds W"
  unfolding window_seconds_def go_int_def Seconds_def Second_def
  by (simp add: floor_billion pos_imp_zdiv_pos_iff)

lemma window_seconds_sub: "- Second < W \<Longrightarrow> W < Second \<Longrightarrow> window_seconds W = 0"
  unfolding window_seconds_def go_int_def Seconds_def Second_def
  by (auto simp: floor_eq_iff ceiling_eq_iff)

lemma FixedWindow_Allow_total:
  "window_seconds (fw_windowSize s) \<noteq> 0 \<Longrightarrow> \<exists>r. fst (FixedWindow_Allow s i now flt kv) = Done r"
  by (auto simp: FixedWindow_Allow_def Let_def split: prod.splits sum.splits)

lemma FixedWindow_Info_total:
  "window_seconds (fw_windowSize s) \<noteq> 0 \<Longrightarrow> \<exists>r. FixedWindow_GetRateLimitInfo s i now flt kv = Done r"
  by (auto simp: FixedWindow_GetRateLimitInfo_def Let_def split: sum.splits)

lemma SlidingWindow_Allow_total:
  "window_seconds (sw_windowSize s) \<noteq> 0 \<Longrightarrow> \<exists>r. fst (SlidingWindow_Allow s i now flt kv) = Done r"
  by (auto simp: SlidingWindow_Allow_def Let_def split: prod.splits sum.splits)

lemma SlidingWindow_Info_total:
  "window_seconds (sw_windowSize s) \<noteq> 0 \<Longrightarrow>
     \<exists>r. SlidingWindow_GetRateLimitInfo s i now flt kv = Done r"
  by (auto simp: SlidingWindow_GetRateLimitInfo_def Let_def split: sum.splits)

section \<open>The window divisor and division by zero\<close>

text \<open>
  C10. Fixed Window and Sliding Window divide \<open>now.Unix()\<close> by
  \<open>int64(windowSize.Seconds())\<close> without a guard. When \<open>windowSize\<close> is at least one
  second the divisor is not zero and \<open>Allow\<close> and \<open>GetRateLimitInfo\<close> of both limiters
  return (an error or a result, never a panic). When \<open>windowSize\<close> is shorter than a
  second the divisor is zero, and all four panic with the store untouched.
\<close>

theorem window_divisor_zero_only_below_one_second:
  assumes "fw_windowSize fs = W" and "sw_windowSize ss = W"
  shows "(Second \<le> W \<longrightarrow>
            window_seconds W \<noteq> 0 \<and>
            (\<exists>r. fst (FixedWindow_Allow fs i now flt kv) = Done r) \<and>
            (\<exists>r. FixedWindow_GetRateLimitInfo fs i now flt kv = Done r) \<and>
            (\<exists>r. fst (SlidingWindow_Allow ss i now flt kv) = Done r) \<and>
            (\<exists>r. SlidingWindow_GetRateLimitInfo ss i now flt kv = Done r)) \<and>
         (- Second < W \<and> W < Second \<longrightarrow>
            window_seconds W = 0 \<and>
            FixedWindow_Allow fs i now flt kv = (Panic, kv) \<and>
            FixedWindow_GetRateLimitInfo fs i now flt kv = Panic \<and>
            SlidingWindow_Allow ss i now flt kv = (Panic, kv) \<and>
            SlidingWindow_GetRateLimitInfo ss i now flt kv = Panic)"
proof (intro conjI impI)
  assume big: "Second \<le> W"
  then show nz: "window_seconds W \<noteq> 0"
    using window_seconds_pos [of W] by simp
  from nz assms show "\<exists>r. fst (FixedWindow_Allow fs i now flt kv) = Done r"
    by (simp add: FixedWindow_Allow_total)
  from nz assms show "\<exists>r. FixedWindow_GetRateLimitInfo fs i now flt kv = Done r"
    by (simp add: FixedWindow_Info_total)
  from nz assms show "\<exists>r. fst (SlidingWindow_Allow ss i now flt kv) = Done r"
    by (simp add: SlidingWindow_Allow_total)
  from nz assms show "\<exists>r. SlidingWindow_GetRateLimitInfo ss i now flt kv = Done r"
    by (simp add: SlidingWindow_Info_total)
next
  assume small: "- Second < W \<and> W < Second"
  then show z: "window_seconds W = 0"
    by (simp add: window_seconds_sub)
  from z assms show "FixedWindow_Allow fs i now flt kv = (Panic, kv)"
    by (simp add: FixedWindow_Allow_def)
  from z assms show "FixedWindow_GetRateLimitInfo fs i now flt kv = Panic"
    by (simp add: FixedWindow_GetRateLimitInfo_def)
  from z assms show "SlidingWindow_Allow ss i now flt kv = (Panic, kv)"
    by (simp add: SlidingWindow_Allow_def)
  from z assms show "SlidingWindow_GetRateLimitInfo ss i now flt kv = Panic"
    by (simp add: SlidingWindow_GetRateLimitInfo_def)
qed

theorem window_divisor_witness:
  "(\<exists>r. fst (FixedWindow_Allow (NewFixedWindowStore 5 60000000000) ''ip:10.0.0.1''
            1700000000000000000 no_faults Map.empty) = Done r) \<and>
   (\<exists>r. fst (SlidingWindow_Allow (NewSlidingWindowStore 5 60000000000) ''ip:10.0.0.1''
            1700000000000000000 no_faults Map.empty) = Done r) \<and>
   window_seconds 60000000000 \<noteq> 0 \<and>
   window_seconds 500000000 = 0 \<and>
   FixedWindow_Allow (NewFixedWindowStore 5 500000000) ''ip:10.0.0.1''
      1700000000000000000 no_faults Map.empty = (Panic, Map.empty) \<and>
   SlidingWindow_GetRateLimitInfo (NewSlidingWindowStore 5 500000000) ''ip:10.0.0.1''
      1700000000000000000 no_faults Map.empty = Panic"
  using
    window_divisor_zero_only_below_one_second
      [of "NewFixedWindowStore 5 60000000000" 60000000000 "NewSlidingWindowStore 5 60000000000"
          "''ip:10.0.0.1''" 1700000000000000000 no_faults Map.empty]
    window_divisor_zero_only_below_one_second
      [of "NewFixedWindowStore 5 500000000" 500000000 "NewSlidingWindowStore 5 500000000"
          "''ip:10.0.0.1''" 1700000000000000000 no_faults Map.empty]
  by (simp add: NewFixedWindowStore_def NewSlidingWindowStore_def Second_def)

section \<open>Fixed window: one counter per window\<close>

lemma live_None [simp]: "live now None = None"
  by (simp add: live_def)

lemma live_Some_deadline:
  "live now (Some \<lparr>val = v, expireAt = Some d\<rparr>) =
     (if now < d then Some \<lparr>val = v, expireAt = Some d\<rparr> else None)"
  by (simp add: live_def)















section \<open>Bucket limiters: reading and writing the state\<close>

lemmas sample_eval = sample_leaky_json_def sample_token_json_def split_fields_def Atoi_def
  is_digit_def digit_val_def Itoa_def digits.simps digit_char_eval


lemma GetState_absent:
  "flt (OpGet key) = None \<Longrightarrow> live now (kv key) = None \<Longrightarrow>
     GetState flt now kv key = Inl (''failed to get state: key '' @ key @ '' not found'')"
  by (simp add: GetState_def redis_Get_def)

lemma not_found_message: "Contains (''failed to get state: key '' @ key @ '' not found'') ''not found''"
  using Contains_append [of "''failed to get state: key '' @ key @ '' ''" "''not found''" "[]"]
  by simp


lemma lb_getBucketState_absent:
  "flt (OpGet key) = None \<Longrightarrow> live now (kv key) = None \<Longrightarrow>
     lb_getBucketState js s now flt kv key = Inr \<lparr>Water = 0, LastLeak = now\<rparr>"
  by (simp only: lb_getBucketState_def GetState_absent not_found_message sum.case if_True)

lemma Sub_self [simp]: "Sub t t = 0"
  by (simp add: Sub_def)

lemma Sub_nonneg: "u \<le> t \<Longrightarrow> 0 \<le> Sub t u"
  by (simp add: Sub_def)

lemma Seconds_nonneg: "0 \<le> d \<Longrightarrow> 0 \<le> Seconds d"
  by (simp add: Seconds_def)


lemma refill_fresh:
  "refill s now \<lparr>Tokens = real_of_int (tb_burst s), LastRefill = now\<rparr> = real_of_int (tb_burst s)"
  by (simp add: refill_def Seconds_def)

lemma SetState_ok:
  "flt (OpSet key) = None \<Longrightarrow>
     SetState flt now kv key blob d = (None, kv(key := Some (set_entry now (kv key) blob d)))"
  by (simp add: SetState_def redis_Set_def)

lemma SetState_frame:
  "snd (SetState flt now kv key blob d) = kv \<or>
   (fst (SetState flt now kv key blob d) = None \<and>
    snd (SetState flt now kv key blob d) = kv(key := Some (set_entry now (kv key) blob d)))"
  by (simp add: SetState_def redis_Set_def split: option.splits)

lemma SetState_failed:
  "fst (SetState flt now kv key blob d) = Some e \<Longrightarrow> snd (SetState flt now kv key blob d) = kv"
  by (simp add: SetState_def redis_Set_def split: option.splits)

lemma TokenBucket_Allow_deny:
  assumes "tb_getBucketState js s now flt kv (bucket_key (tb_keyPrefix s) i) = Inr st"
    and "refill s now st < 1"
  shows "TokenBucket_Allow js s i now flt kv = (Done (Inr False), kv)"
  using assms by (simp add: TokenBucket_Allow_def Let_def)

lemma TokenBucket_Allow_permit:
  assumes "tb_getBucketState js s now flt kv (bucket_key (tb_keyPrefix s) i) = Inr st"
    and "1 \<le> refill s now st"
    and "Marshal js (st\<lparr>Tokens := refill s now st - 1, LastRefill := now\<rparr>) = Inr blob"
    and "flt (OpSet (bucket_key (tb_keyPrefix s) i)) = None"
  shows "TokenBucket_Allow js s i now flt kv =
           (Done (Inr True),
            kv(bucket_key (tb_keyPrefix s) i :=
                 Some (set_entry now (kv (bucket_key (tb_keyPrefix s) i)) blob (tb_expiresIn s))))"
  using assms by (simp add: TokenBucket_Allow_def Let_def tb_saveBucketState_def SetState_ok)

lemma TokenBucket_Allow_cases:
  "(\<exists>e. TokenBucket_Allow js s i now flt kv = (Done (Inl e), kv)) \<or>
   TokenBucket_Allow js s i now flt kv = (Done (Inr False), kv) \<or>
   (\<exists>st blob. tb_getBucketState js s now flt kv (bucket_key (tb_keyPrefix s) i) = Inr st \<and>
      1 \<le> refill s now st \<and>
      Marshal js (st\<lparr>Tokens := refill s now st - 1, LastRefill := now\<rparr>) = Inr blob \<and>
      TokenBucket_Allow js s i now flt kv =
        (Done (Inr True),
         kv(bucket_key (tb_keyPrefix s) i :=
              Some (set_entry now (kv (bucket_key (tb_keyPrefix s) i)) blob (tb_expiresIn s)))))"
proof (cases "tb_getBucketState js s now flt kv (bucket_key (tb_keyPrefix s) i)")
  case (Inl e)
  then show ?thesis by (simp add: TokenBucket_Allow_def)
next
  case (Inr st)
  show ?thesis
  proof (cases "refill s now st < 1")
    case True
    with Inr show ?thesis by (simp add: TokenBucket_Allow_deny)
  next
    case False
    show ?thesis
    proof (cases "Marshal js (st\<lparr>Tokens := refill s now st - 1, LastRefill := now\<rparr>)")
      case (Inl e)
      with Inr False show ?thesis
        by (simp add: TokenBucket_Allow_def Let_def tb_saveBucketState_def)
    next
      case (Inr blob)
      note blob = this
      show ?thesis
      proof (cases "flt (OpSet (bucket_key (tb_keyPrefix s) i))")
        case None
        with \<open>tb_getBucketState js s now flt kv (bucket_key (tb_keyPrefix s) i) = Inr st\<close> False blob
        show ?thesis by (simp add: TokenBucket_Allow_permit)
      next
        case (Some e)
        with \<open>tb_getBucketState js s now flt kv (bucket_key (tb_keyPrefix s) i) = Inr st\<close> False blob
        show ?thesis
          by (simp add: TokenBucket_Allow_def Let_def tb_saveBucketState_def SetState_def redis_Set_def)
      qed
    qed
  qed
qed


lemma go_int_nonneg_le: "0 \<le> x \<Longrightarrow> 0 \<le> go_int x"
  by (simp add: go_int_def)


lemma leak_bounds:
  assumes "LastLeak st \<le> now" and "0 \<le> lb_leakRate s"
  shows "0 \<le> leak s now st \<and> leak s now st \<le> max 0 (Water st)"
proof -
  have "0 \<le> Seconds (Sub now (LastLeak st)) * lb_leakRate s"
    using assms by (simp add: Sub_nonneg Seconds_nonneg)
  then have "0 \<le> go_int (Seconds (Sub now (LastLeak st)) * lb_leakRate s)"
    by (rule go_int_nonneg_le)
  then show ?thesis by (simp add: leak_def Let_def)
qed

lemma leak_nonneg: "0 \<le> leak s now st"
  by (simp add: leak_def Let_def)


lemma LeakyBucket_Allow_permit:
  assumes "lb_getBucketState js s now flt kv (bucket_key (lb_keyPrefix s) i) = Inr st"
    and "leak s now st < lb_capacity s"
    and "Marshal js (st\<lparr>Water := leak s now st + 1, LastLeak := now\<rparr>) = Inr blob"
    and "flt (OpSet (bucket_key (lb_keyPrefix s) i)) = None"
  shows "LeakyBucket_Allow js s i now flt kv =
           (Done (Inr True),
            kv(bucket_key (lb_keyPrefix s) i :=
                 Some (set_entry now (kv (bucket_key (lb_keyPrefix s) i)) blob (lb_expiresIn s))))"
  using assms by (simp add: LeakyBucket_Allow_def Let_def lb_saveBucketState_def SetState_ok)

lemma lb_saveBucketState_cases:
  "snd (lb_saveBucketState js s now flt kv key st) = kv \<or>
   (\<exists>blob. Marshal js st = Inr blob \<and>
      lb_saveBucketState js s now flt kv key st =
        (None, kv(key := Some (set_entry now (kv key) blob (lb_expiresIn s)))))"
  by (cases "Marshal js st")
     (auto simp: lb_saveBucketState_def SetState_def redis_Set_def split: option.splits)

lemma lb_saveBucketState_failed:
  "fst (lb_saveBucketState js s now flt kv key st) = Some e \<Longrightarrow>
     snd (lb_saveBucketState js s now flt kv key st) = kv"
  by (cases "Marshal js st")
     (auto simp: lb_saveBucketState_def SetState_def redis_Set_def split: option.splits)

lemma LeakyBucket_Allow_written:
  "snd (LeakyBucket_Allow js s i now flt kv) = kv \<or>
   (\<exists>st blob. lb_getBucketState js s now flt kv (bucket_key (lb_keyPrefix s) i) = Inr st \<and>
      snd (LeakyBucket_Allow js s i now flt kv) =
        kv(bucket_key (lb_keyPrefix s) i :=
             Some (set_entry now (kv (bucket_key (lb_keyPrefix s) i)) blob (lb_expiresIn s))) \<and>
      ((lb_capacity s \<le> leak s now st \<and>
        Marshal js (st\<lparr>Water := leak s now st\<rparr>) = Inr blob) \<or>
       (leak s now st < lb_capacity s \<and>
        Marshal js (st\<lparr>Water := leak s now st + 1, LastLeak := now\<rparr>) = Inr blob)))"
proof (cases "lb_getBucketState js s now flt kv (bucket_key (lb_keyPrefix s) i)")
  case (Inl e)
  then show ?thesis by (simp add: LeakyBucket_Allow_def)
next
  case (Inr st)
  let ?K = "bucket_key (lb_keyPrefix s) i"
  show ?thesis
  proof (cases "lb_capacity s \<le> leak s now st")
    case True
    let ?st' = "st\<lparr>Water := leak s now st\<rparr>"
    have A: "snd (LeakyBucket_Allow js s i now flt kv) =
             snd (lb_saveBucketState js s now flt kv ?K ?st')"
      using Inr True by (simp add: LeakyBucket_Allow_def Let_def split: prod.splits option.splits)
    from lb_saveBucketState_cases [of js s now flt kv ?K ?st'] show ?thesis
    proof
      assume "snd (lb_saveBucketState js s now flt kv ?K ?st') = kv"
      with A show ?thesis by simp
    next
      assume "\<exists>blob. Marshal js ?st' = Inr blob \<and>
        lb_saveBucketState js s now flt kv ?K ?st' =
          (None, kv(?K := Some (set_entry now (kv ?K) blob (lb_expiresIn s))))"
      then obtain blob where "Marshal js ?st' = Inr blob"
        "lb_saveBucketState js s now flt kv ?K ?st' =
          (None, kv(?K := Some (set_entry now (kv ?K) blob (lb_expiresIn s))))" by blast
      with A Inr True show ?thesis by auto
    qed
  next
    case False
    let ?st' = "st\<lparr>Water := leak s now st + 1, LastLeak := now\<rparr>"
    have A: "snd (LeakyBucket_Allow js s i now flt kv) =
             snd (lb_saveBucketState js s now flt kv ?K ?st')"
      using Inr False by (simp add: LeakyBucket_Allow_def Let_def split: prod.splits option.splits)
    from lb_saveBucketState_cases [of js s now flt kv ?K ?st'] show ?thesis
    proof
      assume "snd (lb_saveBucketState js s now flt kv ?K ?st') = kv"
      with A show ?thesis by simp
    next
      assume "\<exists>blob. Marshal js ?st' = Inr blob \<and>
        lb_saveBucketState js s now flt kv ?K ?st' =
          (None, kv(?K := Some (set_entry now (kv ?K) blob (lb_expiresIn s))))"
      then obtain blob where "Marshal js ?st' = Inr blob"
        "lb_saveBucketState js s now flt kv ?K ?st' =
          (None, kv(?K := Some (set_entry now (kv ?K) blob (lb_expiresIn s))))" by blast
      with A Inr False show ?thesis by auto
    qed
  qed
qed

lemma TokenBucket_Allow_written:
  "snd (TokenBucket_Allow js s i now flt kv) = kv \<or>
   (\<exists>st blob. tb_getBucketState js s now flt kv (bucket_key (tb_keyPrefix s) i) = Inr st \<and>
      1 \<le> refill s now st \<and>
      Marshal js (st\<lparr>Tokens := refill s now st - 1, LastRefill := now\<rparr>) = Inr blob \<and>
      snd (TokenBucket_Allow js s i now flt kv) =
        kv(bucket_key (tb_keyPrefix s) i :=
             Some (set_entry now (kv (bucket_key (tb_keyPrefix s) i)) blob (tb_expiresIn s))))"
  using TokenBucket_Allow_cases [of js s i now flt kv] by auto

lemma refill_le_burst: "refill s now st \<le> real_of_int (tb_burst s)"
  by (simp add: refill_def Let_def)


lemma Seconds_eval: "Seconds (Sub 1500000000 1000000000) = 1 / 2" "Seconds (Sub 1500000000 0) = 3 / 2"
  "Seconds (Sub 2000000000 0) = 2"
  by (simp_all add: Seconds_def Sub_def)


lemmas allow_eval =
  LeakyBucket_Allow_def lb_getBucketState_def lb_saveBucketState_def
  TokenBucket_Allow_def tb_getBucketState_def tb_saveBucketState_def refill_def
  GetState_def SetState_def redis_Get_def redis_Set_def set_entry_def no_faults_def live_def
  leak_def Let_def go_int_def bucket_key_def NewLeakyBucketStore_def NewTokenBucketStore_def


section \<open>Token bucket: a missing state is a full bucket\<close>






section \<open>Leaky bucket: what a denial stores\<close>






section \<open>Bucket levels stay within the capacity\<close>

text \<open>
  C7 (amended). If the level of the state read by \<open>Allow\<close> lies in \<open>[0, capacity]\<close> and
  its timestamp is not after \<open>now\<close>, then \<open>Allow\<close> either leaves the store as it was or
  stores, under the identifier's key, the encoding of a state whose level lies in
  \<open>[0, capacity]\<close>: tokens in \<open>[0, burst]\<close> for Token Bucket, and water in
  \<open>[0, capacity]\<close> for Leaky Bucket provided the leak rate is not negative.
\<close>

theorem bucket_levels_stay_within_capacity:
  "(tb_getBucketState tjs ts now flt kv (bucket_key (tb_keyPrefix ts) i) = Inr tst \<and>
    0 \<le> Tokens tst \<and> Tokens tst \<le> real_of_int (tb_burst ts) \<and> LastRefill tst \<le> now \<longrightarrow>
      snd (TokenBucket_Allow tjs ts i now flt kv) = kv \<or>
      (\<exists>st' blob.
         Marshal tjs st' = Inr blob \<and>
         snd (TokenBucket_Allow tjs ts i now flt kv) =
           kv(bucket_key (tb_keyPrefix ts) i :=
                Some (set_entry now (kv (bucket_key (tb_keyPrefix ts) i)) blob (tb_expiresIn ts))) \<and>
         0 \<le> Tokens st' \<and> Tokens st' \<le> real_of_int (tb_burst ts))) \<and>
   (lb_getBucketState ljs ls now flt kv (bucket_key (lb_keyPrefix ls) i) = Inr lst \<and>
    0 \<le> Water lst \<and> Water lst \<le> lb_capacity ls \<and> LastLeak lst \<le> now \<and>
    0 \<le> lb_leakRate ls \<longrightarrow>
      snd (LeakyBucket_Allow ljs ls i now flt kv) = kv \<or>
      (\<exists>st' blob.
         Marshal ljs st' = Inr blob \<and>
         snd (LeakyBucket_Allow ljs ls i now flt kv) =
           kv(bucket_key (lb_keyPrefix ls) i :=
                Some (set_entry now (kv (bucket_key (lb_keyPrefix ls) i)) blob (lb_expiresIn ls))) \<and>
         0 \<le> Water st' \<and> Water st' \<le> lb_capacity ls))"
proof (intro conjI impI)
  assume a: "tb_getBucketState tjs ts now flt kv (bucket_key (tb_keyPrefix ts) i) = Inr tst \<and>
    0 \<le> Tokens tst \<and> Tokens tst \<le> real_of_int (tb_burst ts) \<and> LastRefill tst \<le> now"
  let ?K = "bucket_key (tb_keyPrefix ts) i"
  from TokenBucket_Allow_written [of tjs ts i now flt kv]
  show "snd (TokenBucket_Allow tjs ts i now flt kv) = kv \<or>
      (\<exists>st' blob.
         Marshal tjs st' = Inr blob \<and>
         snd (TokenBucket_Allow tjs ts i now flt kv) =
           kv(?K := Some (set_entry now (kv ?K) blob (tb_expiresIn ts))) \<and>
         0 \<le> Tokens st' \<and> Tokens st' \<le> real_of_int (tb_burst ts))"
  proof
    assume "snd (TokenBucket_Allow tjs ts i now flt kv) = kv"
    then show ?thesis by simp
  next
    assume "\<exists>st blob. tb_getBucketState tjs ts now flt kv ?K = Inr st \<and>
      1 \<le> refill ts now st \<and>
      Marshal tjs (st\<lparr>Tokens := refill ts now st - 1, LastRefill := now\<rparr>) = Inr blob \<and>
      snd (TokenBucket_Allow tjs ts i now flt kv) =
        kv(?K := Some (set_entry now (kv ?K) blob (tb_expiresIn ts)))"
    then obtain st blob where
      r: "1 \<le> refill ts now st" and
      m: "Marshal tjs (st\<lparr>Tokens := refill ts now st - 1, LastRefill := now\<rparr>) = Inr blob" and
      w: "snd (TokenBucket_Allow tjs ts i now flt kv) =
        kv(?K := Some (set_entry now (kv ?K) blob (tb_expiresIn ts)))" by blast
    let ?st' = "st\<lparr>Tokens := refill ts now st - 1, LastRefill := now\<rparr>"
    have "0 \<le> Tokens ?st'" using r by simp
    moreover have "Tokens ?st' \<le> real_of_int (tb_burst ts)"
      using refill_le_burst [of ts now st] by simp
    ultimately show ?thesis using m w by blast
  qed
next
  assume a: "lb_getBucketState ljs ls now flt kv (bucket_key (lb_keyPrefix ls) i) = Inr lst \<and>
    0 \<le> Water lst \<and> Water lst \<le> lb_capacity ls \<and> LastLeak lst \<le> now \<and>
    0 \<le> lb_leakRate ls"
  let ?K = "bucket_key (lb_keyPrefix ls) i"
  have lk: "0 \<le> leak ls now lst" "leak ls now lst \<le> lb_capacity ls"
    using leak_bounds [of lst now ls] a by auto
  from LeakyBucket_Allow_written [of ljs ls i now flt kv]
  show "snd (LeakyBucket_Allow ljs ls i now flt kv) = kv \<or>
      (\<exists>st' blob.
         Marshal ljs st' = Inr blob \<and>
         snd (LeakyBucket_Allow ljs ls i now flt kv) =
           kv(?K := Some (set_entry now (kv ?K) blob (lb_expiresIn ls))) \<and>
         0 \<le> Water st' \<and> Water st' \<le> lb_capacity ls)"
  proof
    assume "snd (LeakyBucket_Allow ljs ls i now flt kv) = kv"
    then show ?thesis by simp
  next
    assume "\<exists>st blob. lb_getBucketState ljs ls now flt kv ?K = Inr st \<and>
      snd (LeakyBucket_Allow ljs ls i now flt kv) =
        kv(?K := Some (set_entry now (kv ?K) blob (lb_expiresIn ls))) \<and>
      ((lb_capacity ls \<le> leak ls now st \<and>
        Marshal ljs (st\<lparr>Water := leak ls now st\<rparr>) = Inr blob) \<or>
       (leak ls now st < lb_capacity ls \<and>
        Marshal ljs (st\<lparr>Water := leak ls now st + 1, LastLeak := now\<rparr>) = Inr blob))"
    then obtain st blob where
      g: "lb_getBucketState ljs ls now flt kv ?K = Inr st" and
      w: "snd (LeakyBucket_Allow ljs ls i now flt kv) =
        kv(?K := Some (set_entry now (kv ?K) blob (lb_expiresIn ls)))" and
      c: "(lb_capacity ls \<le> leak ls now st \<and>
           Marshal ljs (st\<lparr>Water := leak ls now st\<rparr>) = Inr blob) \<or>
          (leak ls now st < lb_capacity ls \<and>
           Marshal ljs (st\<lparr>Water := leak ls now st + 1, LastLeak := now\<rparr>) = Inr blob)"
      by blast
    from g a have st: "st = lst" by simp
    from c show ?thesis
    proof
      assume d: "lb_capacity ls \<le> leak ls now st \<and>
           Marshal ljs (st\<lparr>Water := leak ls now st\<rparr>) = Inr blob"
      have "0 \<le> Water (st\<lparr>Water := leak ls now st\<rparr>)"
           "Water (st\<lparr>Water := leak ls now st\<rparr>) \<le> lb_capacity ls"
        using lk st by simp_all
      with d w show ?thesis by blast
    next
      assume p: "leak ls now st < lb_capacity ls \<and>
           Marshal ljs (st\<lparr>Water := leak ls now st + 1, LastLeak := now\<rparr>) = Inr blob"
      have "0 \<le> Water (st\<lparr>Water := leak ls now st + 1, LastLeak := now\<rparr>)"
           "Water (st\<lparr>Water := leak ls now st + 1, LastLeak := now\<rparr>) \<le> lb_capacity ls"
        using lk p st by simp_all
      with p w show ?thesis by blast
    qed
  qed
qed

theorem bucket_levels_witness:
  "snd (TokenBucket_Allow sample_token_json (NewTokenBucketStore 1 5 60000000000) ''ip:10.0.0.1''
          1500000000 no_faults
          (Map.empty(''rate_limit_token_bucket:ip:10.0.0.1'' :=
             Some \<lparr>val = ''2000000;1000000000'', expireAt = None\<rparr>))) =
     Map.empty(''rate_limit_token_bucket:ip:10.0.0.1'' :=
        Some \<lparr>val = ''1500000;1500000000'', expireAt = Some 61500000000\<rparr>) \<and>
   (\<exists>st' blob.
      Marshal sample_token_json st' = Inr blob \<and>
      snd (TokenBucket_Allow sample_token_json (NewTokenBucketStore 1 5 60000000000) ''ip:10.0.0.1''
             1500000000 no_faults
             (Map.empty(''rate_limit_token_bucket:ip:10.0.0.1'' :=
                Some \<lparr>val = ''2000000;1000000000'', expireAt = None\<rparr>))) =
        Map.empty(''rate_limit_token_bucket:ip:10.0.0.1'' :=
           Some \<lparr>val = blob, expireAt = Some 61500000000\<rparr>) \<and>
      0 \<le> Tokens st' \<and> Tokens st' \<le> 5) \<and>
   (\<exists>st' blob.
      Marshal sample_leaky_json st' = Inr blob \<and>
      snd (LeakyBucket_Allow sample_leaky_json (NewLeakyBucketStore 5 1 60000000000) ''ip:10.0.0.1''
             1500000000 no_faults
             (Map.empty(''rate_limit_token_bucket:ip:10.0.0.1'' :=
                Some \<lparr>val = ''2000000;1000000000'', expireAt = None\<rparr>))) =
        Map.empty(''rate_limit_token_bucket:ip:10.0.0.1'' :=
                Some \<lparr>val = ''2000000;1000000000'', expireAt = None\<rparr>,
           ''rate_limit_leaky_bucket:ip:10.0.0.1'' :=
           Some \<lparr>val = blob, expireAt = Some 61500000000\<rparr>) \<and>
      0 \<le> Water st' \<and> Water st' \<le> 5)"
proof -
  let ?ts = "NewTokenBucketStore 1 5 60000000000"
  let ?ls = "NewLeakyBucketStore 5 1 60000000000"
  let ?kv = "Map.empty(''rate_limit_token_bucket:ip:10.0.0.1'' :=
             Some \<lparr>val = ''2000000;1000000000'', expireAt = None\<rparr>)"
  have tget: "tb_getBucketState sample_token_json ?ts 1500000000 no_faults ?kv
      (bucket_key (tb_keyPrefix ?ts) ''ip:10.0.0.1'') = Inr \<lparr>Tokens = 2, LastRefill = 1000000000\<rparr>"
    by (simp add: tb_getBucketState_def GetState_def redis_Get_def no_faults_def live_def
        bucket_key_def NewTokenBucketStore_def sample_eval)
  have lget: "lb_getBucketState sample_leaky_json ?ls 1500000000 no_faults ?kv
      (bucket_key (lb_keyPrefix ?ls) ''ip:10.0.0.1'') = Inr \<lparr>Water = 0, LastLeak = 1500000000\<rparr>"
    by (simp add: lb_getBucketState_def GetState_def redis_Get_def no_faults_def live_def
        bucket_key_def NewLeakyBucketStore_def)
  have tw: "snd (TokenBucket_Allow sample_token_json ?ts ''ip:10.0.0.1'' 1500000000 no_faults ?kv) =
     Map.empty(''rate_limit_token_bucket:ip:10.0.0.1'' :=
        Some \<lparr>val = ''1500000;1500000000'', expireAt = Some 61500000000\<rparr>)"
    by (simp add: allow_eval Seconds_eval sample_eval)
  have lw: "snd (LeakyBucket_Allow sample_leaky_json ?ls ''ip:10.0.0.1'' 1500000000 no_faults ?kv) =
     ?kv(''rate_limit_leaky_bucket:ip:10.0.0.1'' :=
        Some \<lparr>val = ''1;1500000000'', expireAt = Some 61500000000\<rparr>)"
    by (simp add: allow_eval Seconds_def sample_eval)
  have tne: "snd (TokenBucket_Allow sample_token_json ?ts ''ip:10.0.0.1'' 1500000000 no_faults ?kv) \<noteq> ?kv"
    unfolding tw by (simp add: fun_eq_iff)
  have lne: "snd (LeakyBucket_Allow sample_leaky_json ?ls ''ip:10.0.0.1'' 1500000000 no_faults ?kv) \<noteq> ?kv"
    unfolding lw by (simp add: fun_eq_iff)
  note inst = bucket_levels_stay_within_capacity
      [of sample_token_json ?ts 1500000000 no_faults ?kv "''ip:10.0.0.1''"
          "\<lparr>Tokens = 2, LastRefill = 1000000000\<rparr>"
          sample_leaky_json ?ls "\<lparr>Water = 0, LastLeak = 1500000000\<rparr>"]
  have t: "\<exists>st' blob.
      Marshal sample_token_json st' = Inr blob \<and>
      snd (TokenBucket_Allow sample_token_json ?ts ''ip:10.0.0.1'' 1500000000 no_faults ?kv) =
        ?kv(bucket_key (tb_keyPrefix ?ts) ''ip:10.0.0.1'' :=
           Some (set_entry 1500000000 (?kv (bucket_key (tb_keyPrefix ?ts) ''ip:10.0.0.1'')) blob
                   (tb_expiresIn ?ts))) \<and>
      0 \<le> Tokens st' \<and> Tokens st' \<le> real_of_int (tb_burst ?ts)"
    using inst tget tne by (simp add: NewTokenBucketStore_def)
  have l: "\<exists>st' blob.
      Marshal sample_leaky_json st' = Inr blob \<and>
      snd (LeakyBucket_Allow sample_leaky_json ?ls ''ip:10.0.0.1'' 1500000000 no_faults ?kv) =
        ?kv(bucket_key (lb_keyPrefix ?ls) ''ip:10.0.0.1'' :=
           Some (set_entry 1500000000 (?kv (bucket_key (lb_keyPrefix ?ls) ''ip:10.0.0.1'')) blob
                   (lb_expiresIn ?ls))) \<and>
      0 \<le> Water st' \<and> Water st' \<le> lb_capacity ?ls"
    using inst lget lne by (simp add: NewLeakyBucketStore_def)
  from t have t': "\<exists>st' blob.
      Marshal sample_token_json st' = Inr blob \<and>
      snd (TokenBucket_Allow sample_token_json ?ts ''ip:10.0.0.1'' 1500000000 no_faults ?kv) =
        Map.empty(''rate_limit_token_bucket:ip:10.0.0.1'' :=
           Some \<lparr>val = blob, expireAt = Some 61500000000\<rparr>) \<and>
      0 \<le> Tokens st' \<and> Tokens st' \<le> 5"
    by (simp add: bucket_key_def NewTokenBucketStore_def set_entry_def)
  from l have l': "\<exists>st' blob.
      Marshal sample_leaky_json st' = Inr blob \<and>
      snd (LeakyBucket_Allow sample_leaky_json ?ls ''ip:10.0.0.1'' 1500000000 no_faults ?kv) =
        ?kv(''rate_limit_leaky_bucket:ip:10.0.0.1'' :=
           Some \<lparr>val = blob, expireAt = Some 61500000000\<rparr>) \<and>
      0 \<le> Water st' \<and> Water st' \<le> 5"
    by (simp add: bucket_key_def NewLeakyBucketStore_def set_entry_def live_def)
  from tw t' l' show ?thesis by blast
qed


text \<open>
  Without the condition on the leak rate the claim fails: capacity 5, leak rate \<open>-1\<close>,
  stored water 5 leaked at second 0, request at second 2. The level read is within
  \<open>[0, 5]\<close> and the elapsed time is positive, yet the denial stores water 7.
\<close>

theorem bucket_levels_counterexample:
  "Unmarshal sample_leaky_json ''5;0'' = Inr \<lparr>Water = 5, LastLeak = 0\<rparr> \<and>
   LeakyBucket_Allow sample_leaky_json (NewLeakyBucketStore 5 (- 1) 60000000000) ''ip:10.0.0.1''
      2000000000 no_faults
      (Map.empty(''rate_limit_leaky_bucket:ip:10.0.0.1'' :=
         Some \<lparr>val = ''5;0'', expireAt = None\<rparr>)) =
     (Done (Inr False),
      Map.empty(''rate_limit_leaky_bucket:ip:10.0.0.1'' :=
         Some \<lparr>val = ''7;0'', expireAt = Some 62000000000\<rparr>)) \<and>
   Unmarshal sample_leaky_json ''7;0'' = Inr \<lparr>Water = 7, LastLeak = 0\<rparr> \<and>
   lb_capacity (NewLeakyBucketStore 5 (- 1) 60000000000) < 7"
  by (simp add: allow_eval Seconds_eval sample_eval)


section \<open>A stored state that does not decode\<close>

text \<open>
  C9. When the stored text is read successfully and \<open>json.Unmarshal\<close> rejects it,
  \<open>Allow\<close> of Token Bucket and of Leaky Bucket returns an error that carries the
  decoder's message; it returns no decision and writes nothing, so the text is not
  replaced by a fresh state.
\<close>

theorem malformed_bucket_state_is_an_error:
  "(GetState flt now kv (bucket_key (tb_keyPrefix ts) i) = Inr tblob \<and>
    Unmarshal tjs tblob = Inl te \<longrightarrow>
      TokenBucket_Allow tjs ts i now flt kv =
        (Done (Inl (''failed to get bucket state: failed to unmarshal token bucket state: '' @ te)),
         kv)) \<and>
   (GetState flt now kv (bucket_key (lb_keyPrefix ls) i) = Inr lblob \<and>
    Unmarshal ljs lblob = Inl le \<longrightarrow>
      LeakyBucket_Allow ljs ls i now flt kv =
        (Done (Inl (''failed to unmarshal leaky bucket state: '' @ le)), kv))"
  by (simp add: TokenBucket_Allow_def tb_getBucketState_def LeakyBucket_Allow_def
      lb_getBucketState_def)

theorem malformed_bucket_state_witness:
  "TokenBucket_Allow sample_token_json (NewTokenBucketStore 1 5 60000000000) ''ip:10.0.0.1''
      1500000000 no_faults
      (Map.empty(''rate_limit_token_bucket:ip:10.0.0.1'' :=
         Some \<lparr>val = ''{tokens'', expireAt = None\<rparr>)) =
     (Done (Inl ''failed to get bucket state: failed to unmarshal token bucket state: invalid character''),
      Map.empty(''rate_limit_token_bucket:ip:10.0.0.1'' :=
         Some \<lparr>val = ''{tokens'', expireAt = None\<rparr>)) \<and>
   LeakyBucket_Allow sample_leaky_json (NewLeakyBucketStore 5 1 60000000000) ''ip:10.0.0.1''
      1500000000 no_faults
      (Map.empty(''rate_limit_leaky_bucket:ip:10.0.0.1'' :=
         Some \<lparr>val = ''{water'', expireAt = None\<rparr>)) =
     (Done (Inl ''failed to unmarshal leaky bucket state: invalid character''),
      Map.empty(''rate_limit_leaky_bucket:ip:10.0.0.1'' :=
         Some \<lparr>val = ''{water'', expireAt = None\<rparr>))"
proof -
  let ?ts = "NewTokenBucketStore 1 5 60000000000"
  let ?ls = "NewLeakyBucketStore 5 1 60000000000"
  let ?tkv = "Map.empty(''rate_limit_token_bucket:ip:10.0.0.1'' :=
         Some \<lparr>val = ''{tokens'', expireAt = None\<rparr>)"
  let ?lkv = "Map.empty(''rate_limit_leaky_bucket:ip:10.0.0.1'' :=
         Some \<lparr>val = ''{water'', expireAt = None\<rparr>)"
  have tg: "GetState no_faults 1500000000 ?tkv (bucket_key (tb_keyPrefix ?ts) ''ip:10.0.0.1'') =
      Inr ''{tokens''"
    by (simp add: GetState_def redis_Get_def no_faults_def live_def bucket_key_def
        NewTokenBucketStore_def)
  have lg: "GetState no_faults 1500000000 ?lkv (bucket_key (lb_keyPrefix ?ls) ''ip:10.0.0.1'') =
      Inr ''{water''"
    by (simp add: GetState_def redis_Get_def no_faults_def live_def bucket_key_def
        NewLeakyBucketStore_def)
  have tu: "Unmarshal sample_token_json ''{tokens'' = Inl ''invalid character''"
    by (simp add: sample_eval)
  have lu: "Unmarshal sample_leaky_json ''{water'' = Inl ''invalid character''"
    by (simp add: sample_eval)
  from malformed_bucket_state_is_an_error
         [of no_faults 1500000000 ?tkv ?ts "''ip:10.0.0.1''" "''{tokens''" sample_token_json
             "''invalid character''"] tg tu
  have t: "TokenBucket_Allow sample_token_json ?ts ''ip:10.0.0.1'' 1500000000 no_faults ?tkv =
     (Done (Inl ''failed to get bucket state: failed to unmarshal token bucket state: invalid character''),
      ?tkv)"
    by simp
  from malformed_bucket_state_is_an_error
         [of no_faults 1500000000 ?lkv _ "''ip:10.0.0.1''" _ _ _ ?ls "''{water''" sample_leaky_json
             "''invalid character''"] lg lu
  have l: "LeakyBucket_Allow sample_leaky_json ?ls ''ip:10.0.0.1'' 1500000000 no_faults ?lkv =
     (Done (Inl ''failed to unmarshal leaky bucket state: invalid character''), ?lkv)"
    by simp
  from t l show ?thesis by simp
qed

section \<open>Rounding to float64\<close>















lemmas f64_eval = f64_def f64_norm.simps round_half_even_def Let_def

lemma f64_simple [simp]: "f64 0 = 0" "f64 1 = 1"
  by (simp_all add: f64_eval)



section \<open>Sliding window: the weighted count and the single write\<close>

lemma IncrementPreserveTTL_frame:
  "k \<noteq> key \<Longrightarrow> snd (IncrementPreserveTTL flt now kv key d) k = kv k"
  by (simp add: IncrementPreserveTTL_def redis_Increment_def redis_Expire_def
      split: option.splits sum.splits prod.splits)



lemma SlidingWindow_Allow_eq:
  assumes "window_seconds (sw_windowSize s) \<noteq> 0"
    and "Check flt now kv
           (window_key (sw_keyPrefix s) i (Unix now sdiv window_seconds (sw_windowSize s))) = Inr c"
    and "Check flt now kv
           (window_key (sw_keyPrefix s) i (Unix now sdiv window_seconds (sw_windowSize s) - 1)) = Inr p"
  shows "SlidingWindow_Allow s i now flt kv =
     (if sw_limit s \<le> weighted_count (sw_windowSize s) now p c then (Done (Inr False), kv)
      else
        (case IncrementPreserveTTL flt now kv
                (window_key (sw_keyPrefix s) i (Unix now sdiv window_seconds (sw_windowSize s)))
                (sw_windowSize s * 2) of
           (Inl e, kv1) \<Rightarrow> (Done (Inl e), kv1)
         | (Inr _, kv1) \<Rightarrow> (Done (Inr True), kv1)))"
  using assms by (simp add: SlidingWindow_Allow_def Let_def)

lemma SlidingWindow_Allow_written:
  "snd (SlidingWindow_Allow s i now flt kv) = kv \<or>
   (fst (SlidingWindow_Allow s i now flt kv) \<noteq> Done (Inr False) \<and>
    snd (SlidingWindow_Allow s i now flt kv) =
      snd (IncrementPreserveTTL flt now kv
             (window_key (sw_keyPrefix s) i (Unix now sdiv window_seconds (sw_windowSize s)))
             (sw_windowSize s * 2)))"
  by (simp add: SlidingWindow_Allow_def Let_def split: sum.splits prod.splits)



lemma sample_window: "window_seconds 60000000000 = 60"
  by (simp add: window_seconds_def Seconds_def go_int_def)

lemmas window_eval =
  Check_def redis_Exists_def redis_Get_def IncrementPreserveTTL_def redis_Increment_def
  redis_Expire_def expire_entry_def no_faults_def live_def window_key_def sample_window
  Unix_def Second_def signed_divide_int_def NewSlidingWindowStore_def NewFixedWindowStore_def
  Atoi_def is_digit_def digit_val_def Itoa_def digits.simps digit_char_eval redis_integer_def




















section \<open>Each call touches only the keys of its identifier\<close>

lemma redis_Get_cong: "kv k = kv' k \<Longrightarrow> redis_Get flt now kv k = redis_Get flt now kv' k"
  by (simp add: redis_Get_def split: option.splits)

lemma redis_Exists_cong:
  "kv k = kv' k \<Longrightarrow> redis_Exists flt now kv k = redis_Exists flt now kv' k"
  by (simp add: redis_Exists_def split: option.splits)

lemma Check_cong:
  assumes "kv k = kv' k"
  shows "Check flt now kv k = Check flt now kv' k"
  unfolding Check_def
  by (simp only: redis_Get_cong [of kv k kv', OF assms] redis_Exists_cong [of kv k kv', OF assms])

lemma GetState_cong:
  assumes "kv k = kv' k"
  shows "GetState flt now kv k = GetState flt now kv' k"
  unfolding GetState_def by (simp only: redis_Get_cong [of kv k kv', OF assms])

lemma redis_Increment_cong:
  "kv k = kv' k \<Longrightarrow>
     fst (redis_Increment flt now kv k) = fst (redis_Increment flt now kv' k) \<and>
     snd (redis_Increment flt now kv k) k = snd (redis_Increment flt now kv' k) k"
  by (simp add: redis_Increment_def split: option.splits)

lemma redis_Expire_cong:
  "kv k = kv' k \<Longrightarrow>
     fst (redis_Expire flt now kv k d) = fst (redis_Expire flt now kv' k d) \<and>
     snd (redis_Expire flt now kv k d) k = snd (redis_Expire flt now kv' k d) k"
  by (simp add: redis_Expire_def split: option.splits)

lemma IncrementPreserveTTL_cong:
  assumes "kv k = kv' k"
  shows "fst (IncrementPreserveTTL flt now kv k d) = fst (IncrementPreserveTTL flt now kv' k d) \<and>
         snd (IncrementPreserveTTL flt now kv k d) k = snd (IncrementPreserveTTL flt now kv' k d) k"
proof -
  obtain r kv1 where a: "redis_Increment flt now kv k = (r, kv1)" by (cases "redis_Increment flt now kv k")
  obtain r' kv1' where b: "redis_Increment flt now kv' k = (r', kv1')" by (cases "redis_Increment flt now kv' k")
  from redis_Increment_cong [of kv k kv' flt now, OF assms] a b have rr: "r' = r" and kk: "kv1 k = kv1' k" by simp_all
  obtain e kv2 where c: "redis_Expire flt now kv1 k d = (e, kv2)" by (cases "redis_Expire flt now kv1 k d")
  obtain e' kv2' where c': "redis_Expire flt now kv1' k d = (e', kv2')" by (cases "redis_Expire flt now kv1' k d")
  from redis_Expire_cong [of kv1 k kv1' flt now d, OF kk] c c' have ee: "e' = e" and k2: "kv2 k = kv2' k" by simp_all
  show ?thesis
    using a b c c' rr kk ee k2
    by (simp add: IncrementPreserveTTL_def split: sum.splits option.splits)
qed

lemma SetState_cong:
  "kv k = kv' k \<Longrightarrow>
     fst (SetState flt now kv k v d) = fst (SetState flt now kv' k v d) \<and>
     snd (SetState flt now kv k v d) k = snd (SetState flt now kv' k v d) k"
  by (simp add: SetState_def redis_Set_def split: option.splits)

lemma SetState_other: "k' \<noteq> k \<Longrightarrow> snd (SetState flt now kv k v d) k' = kv k'"
  by (simp add: SetState_def redis_Set_def split: option.splits)

subsection \<open>Fixed window\<close>

lemma FixedWindow_Allow_other:
  "(\<forall>n. k \<noteq> window_key (fw_keyPrefix s) i n) \<Longrightarrow> snd (FixedWindow_Allow s i now flt kv) k = kv k"
  using IncrementPreserveTTL_frame
          [of k "window_key (fw_keyPrefix s) i (Unix now sdiv window_seconds (fw_windowSize s))"
              flt now kv "fw_windowSize s"]
  by (auto simp: FixedWindow_Allow_def Let_def split: prod.splits sum.splits)

lemma FixedWindow_Allow_cong:
  assumes "\<forall>n. kv (window_key (fw_keyPrefix s) i n) = kv' (window_key (fw_keyPrefix s) i n)"
  shows "fst (FixedWindow_Allow s i now flt kv) = fst (FixedWindow_Allow s i now flt kv') \<and>
         (\<forall>n. snd (FixedWindow_Allow s i now flt kv) (window_key (fw_keyPrefix s) i n) =
               snd (FixedWindow_Allow s i now flt kv') (window_key (fw_keyPrefix s) i n))"
proof (cases "window_seconds (fw_windowSize s) = 0")
  case True
  then show ?thesis using assms by (simp add: FixedWindow_Allow_def)
next
  case False
  let ?K = "window_key (fw_keyPrefix s) i (Unix now sdiv window_seconds (fw_windowSize s))"
  let ?I = "IncrementPreserveTTL flt now kv ?K (fw_windowSize s)"
  let ?I' = "IncrementPreserveTTL flt now kv' ?K (fw_windowSize s)"
  have K: "kv ?K = kv' ?K" using assms by blast
  note c = IncrementPreserveTTL_cong [of kv ?K kv' flt now "fw_windowSize s", OF K]
  obtain r kv1 where a: "?I = (r, kv1)" by (cases ?I)
  obtain r' kv1' where b: "?I' = (r', kv1')" by (cases ?I')
  have rr: "r' = r" using c a b by simp
  have s: "snd (FixedWindow_Allow s i now flt kv) = snd ?I"
          "snd (FixedWindow_Allow s i now flt kv') = snd ?I'"
    using False a b by (simp_all add: FixedWindow_Allow_def Let_def split: sum.splits)
  have f: "fst (FixedWindow_Allow s i now flt kv) = fst (FixedWindow_Allow s i now flt kv')"
    using False a b rr by (simp add: FixedWindow_Allow_def Let_def split: sum.splits)
  have "snd ?I k = snd ?I' k" if "kv k = kv' k" for k
  proof (cases "k = ?K")
    case True
    then show ?thesis using c by simp
  next
    case False
    then show ?thesis using that by (simp add: IncrementPreserveTTL_frame)
  qed
  then show ?thesis using f s assms by simp
qed

lemma FixedWindow_Info_cong:
  assumes "\<forall>n. kv (window_key (fw_keyPrefix s) i n) = kv' (window_key (fw_keyPrefix s) i n)"
  shows "FixedWindow_GetRateLimitInfo s i now flt kv = FixedWindow_GetRateLimitInfo s i now flt kv'"
proof -
  let ?K = "window_key (fw_keyPrefix s) i (Unix now sdiv window_seconds (fw_windowSize s))"
  have "kv ?K = kv' ?K" using assms by blast
  then have "Check flt now kv ?K = Check flt now kv' ?K" by (rule Check_cong)
  then show ?thesis by (simp add: FixedWindow_GetRateLimitInfo_def Let_def)
qed

subsection \<open>Sliding window\<close>

lemma SlidingWindow_Allow_other:
  "(\<forall>n. k \<noteq> window_key (sw_keyPrefix s) i n) \<Longrightarrow> snd (SlidingWindow_Allow s i now flt kv) k = kv k"
  using SlidingWindow_Allow_written [of s i now flt kv]
  by (auto simp: IncrementPreserveTTL_frame)

lemma SlidingWindow_Allow_cong:
  assumes "\<forall>n. kv (window_key (sw_keyPrefix s) i n) = kv' (window_key (sw_keyPrefix s) i n)"
  shows "fst (SlidingWindow_Allow s i now flt kv) = fst (SlidingWindow_Allow s i now flt kv') \<and>
         (\<forall>n. snd (SlidingWindow_Allow s i now flt kv) (window_key (sw_keyPrefix s) i n) =
               snd (SlidingWindow_Allow s i now flt kv') (window_key (sw_keyPrefix s) i n))"
proof (cases "window_seconds (sw_windowSize s) = 0")
  case True
  then show ?thesis using assms by (simp add: SlidingWindow_Allow_def)
next
  case False
  let ?w = "Unix now sdiv window_seconds (sw_windowSize s)"
  let ?K = "window_key (sw_keyPrefix s) i ?w"
  let ?P = "window_key (sw_keyPrefix s) i (?w - 1)"
  let ?I = "IncrementPreserveTTL flt now kv ?K (sw_windowSize s * 2)"
  let ?I' = "IncrementPreserveTTL flt now kv' ?K (sw_windowSize s * 2)"
  have K: "kv ?K = kv' ?K" and P: "kv ?P = kv' ?P" using assms by blast+
  have cK: "Check flt now kv ?K = Check flt now kv' ?K" using K by (rule Check_cong)
  have cP: "Check flt now kv ?P = Check flt now kv' ?P" using P by (rule Check_cong)
  note c = IncrementPreserveTTL_cong [of kv ?K kv' flt now "sw_windowSize s * 2", OF K]
  have I: "snd ?I k = snd ?I' k" if "kv k = kv' k" for k
  proof (cases "k = ?K")
    case True
    then show ?thesis using c by simp
  next
    case False
    then show ?thesis using that by (simp add: IncrementPreserveTTL_frame)
  qed
  show ?thesis
  proof (cases "Check flt now kv' ?K")
    case (Inl e)
    then show ?thesis using False cK assms by (simp add: SlidingWindow_Allow_def Let_def)
  next
    case (Inr cc)
    note cur = this
    show ?thesis
    proof (cases "Check flt now kv' ?P")
      case (Inl e)
      then show ?thesis using False cK cP cur assms by (simp add: SlidingWindow_Allow_def Let_def)
    next
      case (Inr pp)
      have e1: "SlidingWindow_Allow s i now flt kv =
         (if sw_limit s \<le> weighted_count (sw_windowSize s) now pp cc then (Done (Inr False), kv)
          else (case ?I of (Inl e, kv1) \<Rightarrow> (Done (Inl e), kv1)
                         | (Inr _, kv1) \<Rightarrow> (Done (Inr True), kv1)))"
        using SlidingWindow_Allow_eq [OF False, of flt now kv i cc pp] cK cP cur Inr by simp
      have e2: "SlidingWindow_Allow s i now flt kv' =
         (if sw_limit s \<le> weighted_count (sw_windowSize s) now pp cc then (Done (Inr False), kv')
          else (case ?I' of (Inl e, kv1) \<Rightarrow> (Done (Inl e), kv1)
                          | (Inr _, kv1) \<Rightarrow> (Done (Inr True), kv1)))"
        using SlidingWindow_Allow_eq [OF False, of flt now kv' i cc pp] cur Inr by simp
      show ?thesis
      proof (cases "sw_limit s \<le> weighted_count (sw_windowSize s) now pp cc")
        case True
        then show ?thesis using e1 e2 assms by simp
      next
        case False
        obtain r kv1 where a: "?I = (r, kv1)" by (cases ?I)
        obtain r' kv1' where b: "?I' = (r', kv1')" by (cases ?I')
        have rr: "r' = r" using c a b by simp
        have f: "fst (SlidingWindow_Allow s i now flt kv) = fst (SlidingWindow_Allow s i now flt kv')"
          using False e1 e2 a b rr by (simp split: sum.splits)
        have s1: "snd (SlidingWindow_Allow s i now flt kv) = snd ?I"
          using False e1 a by (simp split: sum.splits)
        have s2: "snd (SlidingWindow_Allow s i now flt kv') = snd ?I'"
          using False e2 b by (simp split: sum.splits)
        show ?thesis using f s1 s2 I assms by simp
      qed
    qed
  qed
qed

lemma SlidingWindow_Info_cong:
  assumes "\<forall>n. kv (window_key (sw_keyPrefix s) i n) = kv' (window_key (sw_keyPrefix s) i n)"
  shows "SlidingWindow_GetRateLimitInfo s i now flt kv = SlidingWindow_GetRateLimitInfo s i now flt kv'"
proof -
  let ?w = "Unix now sdiv window_seconds (sw_windowSize s)"
  let ?K = "window_key (sw_keyPrefix s) i ?w"
  let ?P = "window_key (sw_keyPrefix s) i (?w - 1)"
  have K: "kv ?K = kv' ?K" and P: "kv ?P = kv' ?P" using assms by blast+
  have cK: "Check flt now kv ?K = Check flt now kv' ?K" using K by (rule Check_cong)
  have cP: "Check flt now kv ?P = Check flt now kv' ?P" using P by (rule Check_cong)
  show ?thesis
    unfolding SlidingWindow_GetRateLimitInfo_def Let_def by (simp only: cK cP)
qed

subsection \<open>Token bucket and leaky bucket\<close>

lemma tb_getBucketState_cong:
  assumes "kv k = kv' k"
  shows "tb_getBucketState js s now flt kv k = tb_getBucketState js s now flt kv' k"
  unfolding tb_getBucketState_def by (simp only: GetState_cong [of kv k kv', OF assms])

lemma lb_getBucketState_cong:
  assumes "kv k = kv' k"
  shows "lb_getBucketState js s now flt kv k = lb_getBucketState js s now flt kv' k"
  unfolding lb_getBucketState_def by (simp only: GetState_cong [of kv k kv', OF assms])

lemma tb_saveBucketState_cong:
  assumes "kv k = kv' k"
  shows "fst (tb_saveBucketState js s now flt kv k st) = fst (tb_saveBucketState js s now flt kv' k st) \<and>
         snd (tb_saveBucketState js s now flt kv k st) k = snd (tb_saveBucketState js s now flt kv' k st) k"
  using assms SetState_cong [of kv k kv' flt now _ "tb_expiresIn s", OF assms]
  by (cases "Marshal js st") (simp_all add: tb_saveBucketState_def)

lemma lb_saveBucketState_cong:
  assumes "kv k = kv' k"
  shows "fst (lb_saveBucketState js s now flt kv k st) = fst (lb_saveBucketState js s now flt kv' k st) \<and>
         snd (lb_saveBucketState js s now flt kv k st) k = snd (lb_saveBucketState js s now flt kv' k st) k"
  using assms SetState_cong [of kv k kv' flt now _ "lb_expiresIn s", OF assms]
  by (cases "Marshal js st") (simp_all add: lb_saveBucketState_def)

lemma TokenBucket_Allow_other:
  "k \<noteq> bucket_key (tb_keyPrefix s) i \<Longrightarrow> snd (TokenBucket_Allow js s i now flt kv) k = kv k"
  using TokenBucket_Allow_written [of js s i now flt kv] by auto

lemma LeakyBucket_Allow_other:
  "k \<noteq> bucket_key (lb_keyPrefix s) i \<Longrightarrow> snd (LeakyBucket_Allow js s i now flt kv) k = kv k"
  using LeakyBucket_Allow_written [of js s i now flt kv] by auto

lemma TokenBucket_Allow_cong:
  assumes "kv (bucket_key (tb_keyPrefix s) i) = kv' (bucket_key (tb_keyPrefix s) i)"
  shows "fst (TokenBucket_Allow js s i now flt kv) = fst (TokenBucket_Allow js s i now flt kv') \<and>
         snd (TokenBucket_Allow js s i now flt kv) (bucket_key (tb_keyPrefix s) i) =
         snd (TokenBucket_Allow js s i now flt kv') (bucket_key (tb_keyPrefix s) i)"
proof -
  let ?K = "bucket_key (tb_keyPrefix s) i"
  note g = tb_getBucketState_cong [of kv ?K kv' js s now flt, OF assms]
  show ?thesis
  proof (cases "tb_getBucketState js s now flt kv' ?K")
    case (Inl e)
    then show ?thesis using g assms by (simp add: TokenBucket_Allow_def)
  next
    case (Inr st)
    let ?st' = "st\<lparr>Tokens := refill s now st - 1, LastRefill := now\<rparr>"
    obtain e kv1 where a: "tb_saveBucketState js s now flt kv ?K ?st' = (e, kv1)"
      by (cases "tb_saveBucketState js s now flt kv ?K ?st'")
    obtain e' kv1' where b: "tb_saveBucketState js s now flt kv' ?K ?st' = (e', kv1')"
      by (cases "tb_saveBucketState js s now flt kv' ?K ?st'")
    from tb_saveBucketState_cong [of kv ?K kv' js s now flt ?st', OF assms] a b
    have ee: "e' = e" and kk: "kv1 ?K = kv1' ?K" by simp_all
    show ?thesis
      using Inr g a b ee kk assms
      by (simp add: TokenBucket_Allow_def Let_def split: option.splits)
  qed
qed

lemma LeakyBucket_Allow_cong:
  assumes "kv (bucket_key (lb_keyPrefix s) i) = kv' (bucket_key (lb_keyPrefix s) i)"
  shows "fst (LeakyBucket_Allow js s i now flt kv) = fst (LeakyBucket_Allow js s i now flt kv') \<and>
         snd (LeakyBucket_Allow js s i now flt kv) (bucket_key (lb_keyPrefix s) i) =
         snd (LeakyBucket_Allow js s i now flt kv') (bucket_key (lb_keyPrefix s) i)"
proof -
  let ?K = "bucket_key (lb_keyPrefix s) i"
  note g = lb_getBucketState_cong [of kv ?K kv' js s now flt, OF assms]
  show ?thesis
  proof (cases "lb_getBucketState js s now flt kv' ?K")
    case (Inl e)
    then show ?thesis using g assms by (simp add: LeakyBucket_Allow_def)
  next
    case (Inr st)
    let ?d = "st\<lparr>Water := leak s now st\<rparr>"
    let ?p = "?d\<lparr>Water := Water ?d + 1, LastLeak := now\<rparr>"
    obtain e kv1 where a: "lb_saveBucketState js s now flt kv ?K ?d = (e, kv1)"
      by (cases "lb_saveBucketState js s now flt kv ?K ?d")
    obtain e' kv1' where b: "lb_saveBucketState js s now flt kv' ?K ?d = (e', kv1')"
      by (cases "lb_saveBucketState js s now flt kv' ?K ?d")
    from lb_saveBucketState_cong [of kv ?K kv' js s now flt ?d, OF assms] a b
    have ee: "e' = e" and kk: "kv1 ?K = kv1' ?K" by simp_all
    obtain f kv2 where a2: "lb_saveBucketState js s now flt kv ?K ?p = (f, kv2)"
      by (cases "lb_saveBucketState js s now flt kv ?K ?p")
    obtain f' kv2' where b2: "lb_saveBucketState js s now flt kv' ?K ?p = (f', kv2')"
      by (cases "lb_saveBucketState js s now flt kv' ?K ?p")
    from lb_saveBucketState_cong [of kv ?K kv' js s now flt ?p, OF assms] a2 b2
    have ff: "f' = f" and kk2: "kv2 ?K = kv2' ?K" by simp_all
    show ?thesis
      using Inr g a b ee kk a2 b2 ff kk2 assms
      by (simp add: LeakyBucket_Allow_def Let_def split: option.splits)
  qed
qed

lemma TokenBucket_Info_cong:
  assumes "kv (bucket_key (tb_keyPrefix s) i) = kv' (bucket_key (tb_keyPrefix s) i)"
  shows "TokenBucket_GetRateLimitInfo js s i now flt kv = TokenBucket_GetRateLimitInfo js s i now flt kv'"
  unfolding TokenBucket_GetRateLimitInfo_def Let_def
  by (simp only: tb_getBucketState_cong [of kv _ kv', OF assms])

lemma LeakyBucket_Info_cong:
  assumes "kv (bucket_key (lb_keyPrefix s) i) = kv' (bucket_key (lb_keyPrefix s) i)"
  shows "LeakyBucket_GetRateLimitInfo js s i now flt kv = LeakyBucket_GetRateLimitInfo js s i now flt kv'"
  unfolding LeakyBucket_GetRateLimitInfo_def Let_def
  by (simp only: lb_getBucketState_cong [of kv _ kv', OF assms])

subsection \<open>The four limiters together\<close>

lemma store_key_inject: "store_key S a m = store_key S b n \<Longrightarrow> a = b"
  by (cases S) (simp_all add: window_key_inject bucket_key_inject)

lemma Allow_other:
  "(\<forall>n. k \<noteq> store_key S i n) \<Longrightarrow> snd (Allow S i now flt kv) k = kv k"
  by (cases S)
     (simp_all add: FixedWindow_Allow_other SlidingWindow_Allow_other TokenBucket_Allow_other
        LeakyBucket_Allow_other)

lemma Allow_cong:
  assumes "\<forall>n. kv (store_key S i n) = kv' (store_key S i n)"
  shows "fst (Allow S i now flt kv) = fst (Allow S i now flt kv') \<and>
         (\<forall>n. snd (Allow S i now flt kv) (store_key S i n) =
               snd (Allow S i now flt kv') (store_key S i n))"
proof (cases S)
  case (FixedWindow s)
  then show ?thesis using assms FixedWindow_Allow_cong [of kv s i kv' now flt] by simp
next
  case (SlidingWindow s)
  then show ?thesis using assms SlidingWindow_Allow_cong [of kv s i kv' now flt] by simp
next
  case (TokenBucket js s)
  then show ?thesis using assms TokenBucket_Allow_cong [of kv s i kv' js now flt] by simp
next
  case (LeakyBucket js s)
  then show ?thesis using assms LeakyBucket_Allow_cong [of kv s i kv' js now flt] by simp
qed

lemma Info_cong:
  assumes "\<forall>n. kv (store_key S i n) = kv' (store_key S i n)"
  shows "GetRateLimitInfo S i now flt kv = GetRateLimitInfo S i now flt kv'"
proof (cases S)
  case (FixedWindow s)
  then show ?thesis using assms FixedWindow_Info_cong [of kv s i kv' now flt] by simp
next
  case (SlidingWindow s)
  then show ?thesis using assms SlidingWindow_Info_cong [of kv s i kv' now flt] by simp
next
  case (TokenBucket js s)
  then show ?thesis using assms TokenBucket_Info_cong [of kv s i kv' js now flt] by simp
next
  case (LeakyBucket js s)
  then show ?thesis using assms LeakyBucket_Info_cong [of kv s i kv' js now flt] by simp
qed

text \<open>
  C8. For two distinct identifiers \<open>a\<close> and \<open>b\<close> and any of the four limiters: the
  keys built from \<open>a\<close> and from \<open>b\<close> are different (key construction is injective in
  the identifier); \<open>Allow\<close> for \<open>a\<close> changes no key other than those built from \<open>a\<close>,
  and the results of \<open>Allow\<close> and \<open>GetRateLimitInfo\<close> for \<open>a\<close> depend on the store
  only through those keys; hence \<open>Allow\<close> for \<open>a\<close> leaves every counter and bucket
  state of \<open>b\<close> as it was, and the outcome of a later \<open>Allow\<close> or
  \<open>GetRateLimitInfo\<close> for \<open>b\<close>, and what that \<open>Allow\<close> stores for \<open>b\<close>, are the same
  as if the call for \<open>a\<close> had not happened. \<open>GetRateLimitInfo\<close> writes nothing.
\<close>

theorem identifiers_are_isolated:
  assumes "a \<noteq> b"
  shows "(\<forall>m n. store_key S a m \<noteq> store_key S b n) \<and>
         (\<forall>k. (\<forall>m. k \<noteq> store_key S a m) \<longrightarrow> snd (Allow S a t1 f1 kv) k = kv k) \<and>
         (\<forall>kv'. (\<forall>m. kv' (store_key S a m) = kv (store_key S a m)) \<longrightarrow>
            fst (Allow S a t1 f1 kv') = fst (Allow S a t1 f1 kv) \<and>
            (\<forall>m. snd (Allow S a t1 f1 kv') (store_key S a m) =
                  snd (Allow S a t1 f1 kv) (store_key S a m)) \<and>
            GetRateLimitInfo S a t1 f1 kv' = GetRateLimitInfo S a t1 f1 kv) \<and>
         (\<forall>n. snd (Allow S a t1 f1 kv) (store_key S b n) = kv (store_key S b n)) \<and>
         fst (Allow S b t2 f2 (snd (Allow S a t1 f1 kv))) = fst (Allow S b t2 f2 kv) \<and>
         (\<forall>n. snd (Allow S b t2 f2 (snd (Allow S a t1 f1 kv))) (store_key S b n) =
               snd (Allow S b t2 f2 kv) (store_key S b n)) \<and>
         GetRateLimitInfo S b t2 f2 (snd (Allow S a t1 f1 kv)) = GetRateLimitInfo S b t2 f2 kv"
proof -
  let ?kv1 = "snd (Allow S a t1 f1 kv)"
  have inj: "store_key S a m \<noteq> store_key S b n" for m n
    using assms store_key_inject [of S a m b n] by blast
  have writes: "?kv1 k = kv k" if "\<forall>m. k \<noteq> store_key S a m" for k
    using that by (rule Allow_other)
  have reads: "fst (Allow S a t1 f1 kv') = fst (Allow S a t1 f1 kv) \<and>
            (\<forall>m. snd (Allow S a t1 f1 kv') (store_key S a m) =
                  snd (Allow S a t1 f1 kv) (store_key S a m)) \<and>
            GetRateLimitInfo S a t1 f1 kv' = GetRateLimitInfo S a t1 f1 kv"
    if "\<forall>m. kv' (store_key S a m) = kv (store_key S a m)" for kv'
    using Allow_cong [of kv' S a kv t1 f1] Info_cong [of kv' S a kv t1 f1] that by blast
  have other: "?kv1 (store_key S b n) = kv (store_key S b n)" for n
    using inj by (intro writes) metis
  then have agree: "\<forall>n. ?kv1 (store_key S b n) = kv (store_key S b n)" by blast
  from Allow_cong [of ?kv1 S b kv t2 f2, OF agree] Info_cong [of ?kv1 S b kv t2 f2, OF agree]
  have after: "fst (Allow S b t2 f2 ?kv1) = fst (Allow S b t2 f2 kv)"
    "\<forall>n. snd (Allow S b t2 f2 ?kv1) (store_key S b n) = snd (Allow S b t2 f2 kv) (store_key S b n)"
    "GetRateLimitInfo S b t2 f2 ?kv1 = GetRateLimitInfo S b t2 f2 kv"
    by blast+
  from inj writes reads other after show ?thesis by blast
qed

theorem identifiers_are_isolated_witness:
  "fst (Allow (FixedWindow (NewFixedWindowStore 1 60000000000)) ''ip:10.0.0.2'' 130000000000
          no_faults
          (snd (Allow (FixedWindow (NewFixedWindowStore 1 60000000000)) ''ip:10.0.0.1''
                  120000000000 no_faults Map.empty))) = Done (Inr True) \<and>
   fst (Allow (FixedWindow (NewFixedWindowStore 1 60000000000)) ''ip:10.0.0.1'' 130000000000
          no_faults
          (snd (Allow (FixedWindow (NewFixedWindowStore 1 60000000000)) ''ip:10.0.0.1''
                  120000000000 no_faults Map.empty))) = Done (Inr False)"
proof -
  let ?S = "FixedWindow (NewFixedWindowStore 1 60000000000)"
  have ne: "''ip:10.0.0.1'' \<noteq> ''ip:10.0.0.2''" by simp
  from identifiers_are_isolated
         [OF ne, of ?S 120000000000 no_faults Map.empty 130000000000 no_faults]
  have "fst (Allow ?S ''ip:10.0.0.2'' 130000000000 no_faults
               (snd (Allow ?S ''ip:10.0.0.1'' 120000000000 no_faults Map.empty))) =
        fst (Allow ?S ''ip:10.0.0.2'' 130000000000 no_faults Map.empty)"
    by blast
  moreover have "fst (Allow ?S ''ip:10.0.0.2'' 130000000000 no_faults Map.empty) = Done (Inr True)"
    by (simp add: FixedWindow_Allow_def window_eval)
  moreover have "fst (Allow ?S ''ip:10.0.0.1'' 130000000000 no_faults
               (snd (Allow ?S ''ip:10.0.0.1'' 120000000000 no_faults Map.empty))) = Done (Inr False)"
    by (simp add: FixedWindow_Allow_def window_eval)
  ultimately show ?thesis by simp
qed

section \<open>Identifier extraction\<close>

text \<open>
  C5 (amended). Identifier extraction never fails and never returns the empty string:
  it returns \<open>api:<key>\<close> when the \<open>X-API-Key\<close> header is not empty and
  \<open>ip:<RealIP>\<close> otherwise (the per-path extractors append \<open>:<path>\<close>). For a request
  with neither a key nor a network origin it returns the identifier \<open>ip:\<close> (per path,
  \<open>ip::<path>\<close>) without an error.
\<close>

theorem identifier_extraction_never_fails:
  "IdentifierExtractor c =
     Inr (if X_API_Key c \<noteq> [] then ''api:'' @ X_API_Key c else ''ip:'' @ RealIP c) \<and>
   IdentifierExtractorPerPath c =
     Inr (if X_API_Key c \<noteq> [] then ''api:'' @ X_API_Key c @ '':'' @ Path c
          else ''ip:'' @ RealIP c @ '':'' @ Path c) \<and>
   IdentifierExtractor c \<noteq> Inl e \<and>
   IdentifierExtractorPerPath c \<noteq> Inl e \<and>
   IdentifierExtractor c \<noteq> Inr [] \<and>
   IdentifierExtractorPerPath c \<noteq> Inr [] \<and>
   (X_API_Key c = [] \<and> RealIP c = [] \<longrightarrow>
      IdentifierExtractor c = Inr ''ip:'' \<and>
      IdentifierExtractorPerPath c = Inr (''ip::'' @ Path c))"
  by (simp add: IdentifierExtractor_def IdentifierExtractorPerPath_def Let_def)

theorem identifier_extraction_witness:
  "IdentifierExtractorPerPath \<lparr>X_API_Key = '''', RealIP = '''', Path = ''/users''\<rparr> =
     Inr ''ip::/users'' \<and>
   IdentifierExtractor \<lparr>X_API_Key = ''k-123'', RealIP = ''10.0.0.1'', Path = ''/users''\<rparr> =
     Inr ''api:k-123'' \<and>
   IdentifierExtractor \<lparr>X_API_Key = '''', RealIP = ''10.0.0.1'', Path = ''/users''\<rparr> =
     Inr ''ip:10.0.0.1''"
  using identifier_extraction_never_fails
          [of "\<lparr>X_API_Key = '''', RealIP = '''', Path = ''/users''\<rparr>"]
        identifier_extraction_never_fails
          [of "\<lparr>X_API_Key = ''k-123'', RealIP = ''10.0.0.1'', Path = ''/users''\<rparr>"]
        identifier_extraction_never_fails
          [of "\<lparr>X_API_Key = '''', RealIP = ''10.0.0.1'', Path = ''/users''\<rparr>"]
  by simp

text \<open>
  The claim as stated fails: for a request without \<open>X-API-Key\<close> and with an empty
  \<open>RealIP\<close> the extractor reports no failure, it returns \<open>ip:\<close>. \<open>Allow\<close> has no
  check of its own on the identifier: given \<open>ip:\<close>, the fixed-window limiter counts the
  request under the key \<open>rate_limit_fixed_window:ip::2\<close> and permits it.
\<close>

theorem identifier_extraction_counterexample:
  "IdentifierExtractor \<lparr>X_API_Key = '''', RealIP = '''', Path = ''/users''\<rparr> = Inr ''ip:'' \<and>
   FixedWindow_Allow (NewFixedWindowStore 5 60000000000) ''ip:'' 120000000000 no_faults Map.empty =
     (Done (Inr True),
      Map.empty(''rate_limit_fixed_window:ip::2'' :=
         Some \<lparr>val = ''1'', expireAt = Some 180000000000\<rparr>))"
  by (simp add: IdentifierExtractor_def FixedWindow_Allow_def window_eval)


end
